theory Spec2Isabelle
  imports Main
begin

section \<open>JavaScript values the generator computes with\<close>

text \<open>
  The three generator components (the free-form 12-digit one, the one that stores named
  bases in the database, and the prefix + CNPJ one) share \<open>calculateEanCheckDigit\<close> and
  the same loop. They compute with JavaScript numbers and strings.

  A number is either \<open>NaN\<close> or an integer. Every number the generator handles under the
  theorems below is an integer of magnitude below \<open>2 ^ 53\<close> (at most a 12-digit value
  plus 1000), where IEEE doubles are exact; the comparisons with 1 and 1000 agree with the
  doubles for every integer, since rounding to a double is monotone.

  A string is a list of characters; a \<^typ>\<open>char\<close> stands for a UTF-16 code unit below 256.
\<close>

datatype number = NaN | Fin int

fun num_add :: "number \<Rightarrow> number \<Rightarrow> number" where
  "num_add (Fin a) (Fin b) = Fin (a + b)"
| "num_add _ _ = NaN"

fun num_sub :: "number \<Rightarrow> number \<Rightarrow> number" where
  "num_sub (Fin a) (Fin b) = Fin (a - b)"
| "num_sub _ _ = NaN"

fun num_mul :: "number \<Rightarrow> number \<Rightarrow> number" where
  "num_mul (Fin a) (Fin b) = Fin (a * b)"
| "num_mul _ _ = NaN"

text \<open>The operator \<open>%\<close>: the remainder has the sign of the dividend, and \<open>x % 0\<close> is \<open>NaN\<close>.\<close>

fun num_rem :: "number \<Rightarrow> number \<Rightarrow> number" where
  "num_rem (Fin a) (Fin b) = (if b = 0 then NaN else Fin (sgn a * (\<bar>a\<bar> mod \<bar>b\<bar>)))"
| "num_rem _ _ = NaN"

text \<open>Comparisons with \<open>NaN\<close> are false.\<close>

fun num_lt :: "number \<Rightarrow> number \<Rightarrow> bool" where
  "num_lt (Fin a) (Fin b) = (a < b)"
| "num_lt _ _ = False"

definition isNaN :: "number \<Rightarrow> bool" where
  "isNaN x = (x = NaN)"

definition isDigit :: "char \<Rightarrow> bool" where
  "isDigit c = (48 \<le> (of_char c :: nat) \<and> (of_char c :: nat) \<le> 57)"

definition digitVal :: "char \<Rightarrow> int" where
  "digitVal c = int (of_char c) - 48"

text \<open>
  White space and line terminators (\<open>StrWhiteSpaceChar\<close>) among the code units below 256:
  TAB, LF, VT, FF, CR, SP and NBSP.
\<close>

definition isStrWhiteSpace :: "char \<Rightarrow> bool" where
  "isStrWhiteSpace c = ((of_char c :: nat) \<in> {9, 10, 11, 12, 13, 32, 160})"

text \<open>
  \<open>Number\<close> applied to a string of one character, as \<open>code.split('').map(Number)\<close> does:
  a digit is its value, a white-space character trims to the empty string, which is 0,
  and anything else is \<open>NaN\<close>.
\<close>

definition Number :: "char \<Rightarrow> number" where
  "Number c = (if isDigit c then Fin (digitVal c)
               else if isStrWhiteSpace c then Fin 0
               else NaN)"

definition digitChar :: "nat \<Rightarrow> char" where
  "digitChar d = char_of (48 + d)"

fun decimal :: "nat \<Rightarrow> string" where
  "decimal n = (if n < 10 then [digitChar n] else decimal (n div 10) @ [digitChar (n mod 10)])"

declare decimal.simps [simp del]

text \<open>\<open>Number.prototype.toString\<close> in radix 10, for \<open>NaN\<close> and integers.\<close>

definition toString :: "number \<Rightarrow> string" where
  "toString x = (case x of
       NaN \<Rightarrow> ''NaN''
     | Fin n \<Rightarrow> (if n < 0 then CHR ''-'' # decimal (nat (- n)) else decimal (nat n)))"

text \<open>\<open>String.prototype.padStart\<close> with a filler of one character: it never truncates.\<close>

definition padStart :: "nat \<Rightarrow> char \<Rightarrow> string \<Rightarrow> string" where
  "padStart targetLength c s = replicate (targetLength - length s) c @ s"

text \<open>\<open>String.prototype.slice\<close> with two indices that are not negative.\<close>

definition slice :: "nat \<Rightarrow> nat \<Rightarrow> string \<Rightarrow> string" where
  "slice b e s = take (min e (length s) - b) (drop b s)"

definition startsWith :: "string \<Rightarrow> string \<Rightarrow> bool" where
  "startsWith s p = (take (length p) s = p)"

subsection \<open>parseInt\<close>

text \<open>
  \<open>parseInt\<close> with no radix: leading white space is skipped, one sign is read, a prefix
  \<open>0x\<close> or \<open>0X\<close> selects radix 16, and the longest run of digits of the radix is the value;
  no digit at all gives \<open>NaN\<close>.
\<close>

definition radixDigit :: "nat \<Rightarrow> char \<Rightarrow> nat option" where
  "radixDigit R c =
     (let k = (of_char c :: nat);
          v = (if 48 \<le> k \<and> k \<le> 57 then Some (k - 48)
               else if 97 \<le> k \<and> k \<le> 122 then Some (k - 87)
               else if 65 \<le> k \<and> k \<le> 90 then Some (k - 55)
               else None)
      in case v of None \<Rightarrow> None | Some d \<Rightarrow> (if d < R then Some d else None))"

fun parseDigits :: "nat \<Rightarrow> string \<Rightarrow> nat \<Rightarrow> nat \<Rightarrow> nat \<times> nat" where
  "parseDigits R [] acc cnt = (acc, cnt)"
| "parseDigits R (c # cs) acc cnt =
     (case radixDigit R c of
        None \<Rightarrow> (acc, cnt)
      | Some d \<Rightarrow> parseDigits R cs (acc * R + d) (Suc cnt))"

definition parseInt :: "string \<Rightarrow> number" where
  "parseInt input =
     (let s = dropWhile isStrWhiteSpace input;
          sign = (if s \<noteq> [] \<and> hd s = CHR ''-'' then - 1 else (1::int));
          s1 = (if s \<noteq> [] \<and> (hd s = CHR ''+'' \<or> hd s = CHR ''-'') then tl s else s);
          hex = (length s1 \<ge> 2 \<and> (take 2 s1 = ''0x'' \<or> take 2 s1 = ''0X''));
          R = (if hex then 16 else 10);
          s2 = (if hex then drop 2 s1 else s1);
          (v, cnt) = parseDigits R s2 0 0
      in if cnt = 0 then NaN else Fin (sign * int v))"

section \<open>The check digit\<close>

text \<open>Reading \<open>digits[i]\<close>: beyond the end it is \<open>undefined\<close>, which multiplies to \<open>NaN\<close>.\<close>

definition digit_at :: "number list \<Rightarrow> nat \<Rightarrow> number" where
  "digit_at digits i = (if i < length digits then digits ! i else NaN)"

text \<open>The loop \<open>for (let i = 0; i < 12; i++) sum += digits[i] * (i % 2 === 0 ? 1 : 3)\<close>.\<close>

function sum_loop :: "number list \<Rightarrow> nat \<Rightarrow> number \<Rightarrow> number" where
  "sum_loop digits i sumv =
     (if i < 12
      then sum_loop digits (Suc i)
             (num_add sumv (num_mul (digit_at digits i) (Fin (if i mod 2 = 0 then 1 else 3))))
      else sumv)"
  by pat_completeness auto
termination
  by (relation "measure (\<lambda>(digits, i, sumv). 12 - i)") auto

declare sum_loop.simps [simp del]

definition calculateEanCheckDigit :: "string \<Rightarrow> string" where
  "calculateEanCheckDigit code =
     (let digits = map Number code;
          sumv = sum_loop digits 0 (Fin 0);
          checkDigit = num_rem (num_sub (Fin 10) (num_rem sumv (Fin 10))) (Fin 10)
      in toString checkDigit)"

text \<open>
  The EAN-13 checksum of a string of 13 digits, as the specification words it: the digit at
  index \<open>i\<close> times 3 when \<open>i\<close> is odd and times 1 when it is even, summed over the indices
  0 to 12.
\<close>

definition ean13_sum :: "string \<Rightarrow> int" where
  "ean13_sum s = sum_list (map (\<lambda>i. digitVal (s ! i) * (if odd i then 3 else 1)) [0..<13])"

definition isDigits :: "string \<Rightarrow> bool" where
  "isDigits s = list_all isDigit s"

text \<open>
  The weight of index \<open>i\<close> in the loop, and the weighted sum of the first 12 digits, for the
  proofs.
\<close>

definition weight :: "nat \<Rightarrow> int" where
  "weight i = (if i mod 2 = 0 then 1 else 3)"

definition weighted12 :: "string \<Rightarrow> int" where
  "weighted12 B = sum_list (map (\<lambda>j. digitVal (B ! j) * weight j) [0..<12])"

section \<open>The generator components\<close>

text \<open>The interface \<open>EanCode\<close>: the full 13-character code and the base code it extends.\<close>

record EanCode =
  code :: string
  baseCode :: string

text \<open>
  What a call shows the user: \<open>toast.error\<close> with one of the validation or persistence
  messages, or \<open>toast.success\<close> with the quantity generated.
\<close>

datatype toast =
    ErrCnpjLength \<comment> \<open>"Digite exatamente 5 digitos do CNPJ"\<close>
  | ErrBaseLength \<comment> \<open>"Digite exatamente 12 digitos do codigo base"\<close>
  | ErrBaseDigits \<comment> \<open>"Digite apenas numeros"\<close>
  | ErrQuantity \<comment> \<open>"Quantidade deve ser entre 1 e 1000"\<close>
  | ErrSave \<comment> \<open>"Erro ao salvar ultimo codigo"\<close>
  | OkGenerated number \<comment> \<open>"<qty> codigo(s) EAN-13 gerado(s)"\<close>

fun isError :: "toast \<Rightarrow> bool" where
  "isError (OkGenerated q) = False"
| "isError _ = True"

text \<open>Reading \<open>codes[codes.length - 1].baseCode\<close> of an empty array throws.\<close>

datatype exn = TypeError

text \<open>
  The state the components hold: the quantity field and the list on screen are common to
  the three; the two components that keep their cursor in the browser add the state
  variable \<open>lastBaseCode\<close> and the local-storage item \<open>lastEanBaseCode\<close>.
\<close>

record gen_state =
  quantity :: string
  generatedCodes :: "EanCode list"

record local_state = gen_state +
  lastBaseCode :: string
  localStorage :: "string option"

text \<open>
  The free-form component adds the state variable \<open>baseCode\<close> (the text field; the name
  \<open>baseCode\<close> is the field of \<open>EanCode\<close> here).
\<close>

record free_state = local_state +
  baseCode_input :: string

record cnpj_state = local_state +
  prefix :: string
  cnpjDigits :: string

text \<open>
  A row of the table \<open>saved_ean_bases\<close> (its column \<open>id\<close> is \<open>base_id\<close> here). The database
  component holds the rows it fetched (\<open>savedBases\<close>) and the one selected; \<open>database\<close> is
  the table itself, as the server holds it, which only a successful update changes.
\<close>

record SavedEanBase =
  base_id :: string
  name :: string
  cnpj_prefix :: string
  last_base_code :: string

record saved_state = gen_state +
  user :: "string option"
  savedBases :: "SavedEanBase list"
  selectedBase :: "SavedEanBase option"
  database :: "SavedEanBase list"

text \<open>The test \<open>/^\d+$/\<close>: one digit or more, and nothing else.\<close>

definition all_digits_re :: "string \<Rightarrow> bool" where
  "all_digits_re s = (s \<noteq> [] \<and> list_all isDigit s)"

definition bad_quantity :: "number \<Rightarrow> bool" where
  "bad_quantity qty = (isNaN qty \<or> num_lt qty (Fin 1) \<or> num_lt (Fin 1000) qty)"

text \<open>
  The loop of the free-form and of the database component: \<open>startNumber + i\<close> printed and
  padded to 12 characters, then the check digit appended.
\<close>

function codes_loop :: "number \<Rightarrow> number \<Rightarrow> nat \<Rightarrow> EanCode list \<Rightarrow> EanCode list" where
  "codes_loop startNumber qty i codes =
     (if num_lt (Fin (int i)) qty
      then (let currentBase = padStart 12 CHR ''0'' (toString (num_add startNumber (Fin (int i))));
                checkDigit = calculateEanCheckDigit currentBase;
                fullCode = currentBase @ checkDigit
            in codes_loop startNumber qty (Suc i)
                 (codes @ [\<lparr>code = fullCode, baseCode = currentBase\<rparr>]))
      else codes)"
  by pat_completeness auto
termination
  by (relation "measure (\<lambda>(startNumber, qty, i, codes).
        (case qty of NaN \<Rightarrow> 0 | Fin q \<Rightarrow> nat (q - int i)))")
     (auto split: number.splits)

declare codes_loop.simps [simp del]

text \<open>
  The loop of the prefix + CNPJ component: only the tail counts, padded to 4 characters
  behind the prefix and the five CNPJ digits.
\<close>

function cnpj_loop ::
  "string \<Rightarrow> string \<Rightarrow> number \<Rightarrow> number \<Rightarrow> nat \<Rightarrow> EanCode list \<Rightarrow> EanCode list" where
  "cnpj_loop pfx cnpj startNumber qty i codes =
     (if num_lt (Fin (int i)) qty
      then (let fourDigits = padStart 4 CHR ''0'' (toString (num_add startNumber (Fin (int i))));
                baseCode' = pfx @ cnpj @ fourDigits;
                checkDigit = calculateEanCheckDigit baseCode';
                fullCode = baseCode' @ checkDigit
            in cnpj_loop pfx cnpj startNumber qty (Suc i)
                 (codes @ [\<lparr>code = fullCode, baseCode = baseCode'\<rparr>]))
      else codes)"
  by pat_completeness auto
termination
  by (relation "measure (\<lambda>(pfx, cnpj, startNumber, qty, i, codes).
        (case qty of NaN \<Rightarrow> 0 | Fin q \<Rightarrow> nat (q - int i)))")
     (auto split: number.splits)

declare cnpj_loop.simps [simp del]

subsection \<open>The free-form component\<close>

text \<open>
  \<open>generateEans\<close> of the component that takes a 12-digit base code from a text field. It
  stores the last base code generated (not its successor) in the state and in local
  storage, and never reads it back as a start.
\<close>

definition generateEans_free :: "free_state \<Rightarrow> exn + (toast list \<times> free_state)" where
  "generateEans_free st =
     (if length (baseCode_input st) \<noteq> 12 then Inr ([ErrBaseLength], st)
      else if \<not> all_digits_re (baseCode_input st) then Inr ([ErrBaseDigits], st)
      else
        (let qty = parseInt (quantity st) in
         if bad_quantity qty then Inr ([ErrQuantity], st)
         else
           (let startNumber = parseInt (baseCode_input st);
                codes = codes_loop startNumber qty 0 []
            in if codes = [] then Inl TypeError
               else
                 (let lastGenerated = baseCode (last codes)
                  in Inr ([OkGenerated qty],
                          st\<lparr>lastBaseCode := lastGenerated,
                             localStorage := Some lastGenerated,
                             generatedCodes := codes\<rparr>)))))"

subsection \<open>The prefix + CNPJ component\<close>

text \<open>
  \<open>generateEans\<close> of the component that builds the base code from a prefix, five CNPJ
  digits and a 4-digit tail. A string is truthy when it is not empty.
\<close>

definition generateEans_cnpj :: "cnpj_state \<Rightarrow> exn + (toast list \<times> cnpj_state)" where
  "generateEans_cnpj st =
     (if length (cnpjDigits st) \<noteq> 5 then Inr ([ErrCnpjLength], st)
      else
        (let qty = parseInt (quantity st) in
         if bad_quantity qty then Inr ([ErrQuantity], st)
         else
           (let startNumber =
                  (if lastBaseCode st \<noteq> [] \<and> startsWith (lastBaseCode st) (prefix st @ cnpjDigits st)
                   then (let lastFourDigits = slice 8 12 (lastBaseCode st)
                         in num_add (parseInt lastFourDigits) (Fin 1))
                   else Fin 0);
                codes = cnpj_loop (prefix st) (cnpjDigits st) startNumber qty 0 []
            in if codes = [] then Inl TypeError
               else
                 (let lastGenerated = baseCode (last codes)
                  in Inr ([OkGenerated qty],
                          st\<lparr>lastBaseCode := lastGenerated,
                             localStorage := Some lastGenerated,
                             generatedCodes := codes\<rparr>)))))"

subsection \<open>The database component\<close>

text \<open>
  The update \<open>.update({ last_base_code }).eq("id", id)\<close> of the table, when it succeeds.
\<close>

definition update_last_base_code :: "string \<Rightarrow> string \<Rightarrow> SavedEanBase list \<Rightarrow> SavedEanBase list" where
  "update_last_base_code i nextBaseCode rows =
     map (\<lambda>b. if base_id b = i then b\<lparr>last_base_code := nextBaseCode\<rparr> else b) rows"

text \<open>
  \<open>generateEans\<close> of the component that keeps named bases in the database. The start is
  the selected base's \<open>last_base_code\<close>, and the cursor written back is the successor of
  the last base code generated. Whether the update succeeds is the environment's choice
  \<open>writeOk\<close> (the network, the row-level policies, the table's constraints): a failure
  is caught, reported with a toast, and leaves the held state as it was; the batch is put
  on screen either way. Without a selected base or a user the call returns at once.
\<close>

definition generateEans_saved :: "bool \<Rightarrow> saved_state \<Rightarrow> exn + (toast list \<times> saved_state)" where
  "generateEans_saved writeOk st =
     (case (selectedBase st, user st) of
        (None, _) \<Rightarrow> Inr ([], st)
      | (Some sel, None) \<Rightarrow> Inr ([], st)
      | (Some sel, Some u) \<Rightarrow>
        (let qty = parseInt (quantity st) in
         if bad_quantity qty then Inr ([ErrQuantity], st)
         else
           (let startNumber = parseInt (last_base_code sel);
                codes = codes_loop startNumber qty 0 []
            in if codes = [] then Inl TypeError
               else
                 (let lastGenerated = baseCode (last codes);
                      nextBaseCode =
                        padStart 12 CHR ''0'' (toString (num_add (parseInt lastGenerated) (Fin 1)))
                  in if writeOk
                     then
                       (let updatedBase = sel\<lparr>last_base_code := nextBaseCode\<rparr>
                        in Inr ([OkGenerated qty],
                                st\<lparr>database := update_last_base_code (base_id sel) nextBaseCode (database st),
                                   selectedBase := Some updatedBase,
                                   savedBases := map (\<lambda>b. if base_id b = base_id sel then updatedBase else b)
                                                   (savedBases st),
                                   generatedCodes := codes\<rparr>))
                     else Inr ([ErrSave, OkGenerated qty], st\<lparr>generatedCodes := codes\<rparr>)))))"

text \<open>
  The base code of a number, as the loop prints it: decimal, padded with zeros to 12
  characters; and the tail of the prefix + CNPJ component, padded to 4.
\<close>

definition base12 :: "int \<Rightarrow> string" where
  "base12 k = padStart 12 CHR ''0'' (toString (Fin k))"

definition tail4 :: "int \<Rightarrow> string" where
  "tail4 k = padStart 4 CHR ''0'' (toString (Fin k))"

definition withCheck :: "string \<Rightarrow> EanCode" where
  "withCheck b = \<lparr>code = b @ calculateEanCheckDigit b, baseCode = b\<rparr>"

text \<open>The value of a string of decimal digits, for the proofs about \<open>parseInt\<close>.\<close>

definition decval :: "string \<Rightarrow> nat" where
  "decval s = foldl (\<lambda>a c. a * 10 + nat (digitVal c)) 0 s"

section \<open>Properties of the check digit\<close>

lemma isDigit_digitVal: "isDigit c \<Longrightarrow> 0 \<le> digitVal c \<and> digitVal c \<le> 9"
  by (auto simp: isDigit_def digitVal_def)

lemma Number_digit: "isDigit c \<Longrightarrow> Number c = Fin (digitVal c)"
  by (simp add: Number_def)

lemma digitVal_digitChar: "d < 10 \<Longrightarrow> digitVal (digitChar d) = int d"
  by (simp add: digitVal_def digitChar_def)

lemma isDigit_digitChar: "d < 10 \<Longrightarrow> isDigit (digitChar d)"
  by (simp add: isDigit_def digitChar_def)

lemma sum_loop_Fin:
  "12 \<le> length ds \<Longrightarrow> \<forall>j<12. ds ! j = Fin (f j) \<Longrightarrow>
   sum_loop ds i (Fin a) = Fin (a + sum_list (map (\<lambda>j. f j * weight j) [i..<12]))"
proof (induction k \<equiv> "12 - i" arbitrary: i a)
  case 0
  then show ?case by (subst sum_loop.simps) simp
next
  case (Suc k)
  then have lt: "i < 12" and k: "k = 12 - Suc i" by simp_all
  have d: "digit_at ds i = Fin (f i)"
    using lt Suc.prems by (simp add: digit_at_def)
  have "sum_loop ds i (Fin a) = sum_loop ds (Suc i) (Fin (a + f i * weight i))"
    using lt d by (subst sum_loop.simps) (simp add: weight_def)
  also have "\<dots> = Fin (a + f i * weight i + sum_list (map (\<lambda>j. f j * weight j) [Suc i..<12]))"
    using Suc.hyps(1) [OF k Suc.prems] .
  finally show ?case using lt by (simp add: upt_conv_Cons)
qed

lemma sum_loop_NaN: "sum_loop ds i NaN = NaN"
proof (induction k \<equiv> "12 - i" arbitrary: i)
  case 0
  then show ?case by (subst sum_loop.simps) simp
next
  case (Suc k)
  then have lt: "i < 12" and k: "k = 12 - Suc i" by simp_all
  show ?case using lt Suc.hyps(1) [OF k] by (subst sum_loop.simps) simp
qed

lemma decimal_digit: "n < 10 \<Longrightarrow> decimal n = [digitChar n]"
  by (subst decimal.simps) simp

lemma num_check_digit:
  assumes "0 \<le> S"
  shows "num_rem (num_sub (Fin 10) (num_rem (Fin S) (Fin 10))) (Fin 10) = Fin ((10 - S mod 10) mod 10)"
proof -
  have "0 \<le> S mod 10" "S mod 10 < 10" by simp_all
  then have "0 \<le> 10 - S mod 10" by linarith
  then show ?thesis using assms by (simp add: sgn_if abs_if)
qed

lemma sum_loop_hits_NaN:
  "i \<le> j \<Longrightarrow> j < 12 \<Longrightarrow> digit_at ds j = NaN \<Longrightarrow> sum_loop ds i acc = NaN"
proof (induction k \<equiv> "j - i" arbitrary: i acc)
  case 0
  then have "i = j" by simp
  then have "sum_loop ds i acc = sum_loop ds (Suc i) NaN"
    using 0 by (subst sum_loop.simps) (cases acc; simp)
  then show ?case by (simp add: sum_loop_NaN)
next
  case (Suc k)
  then have "sum_loop ds (Suc i) (num_add acc (num_mul (digit_at ds i) (Fin (if i mod 2 = 0 then 1 else 3)))) = NaN"
    by (intro Suc.hyps(1)) simp_all
  then show ?case using Suc.prems Suc.hyps(2) by (subst sum_loop.simps) simp
qed

lemma check_digit_of_NaN_sum:
  "sum_loop (map Number str) 0 (Fin 0) = NaN \<Longrightarrow> calculateEanCheckDigit str = ''NaN''"
  by (simp add: calculateEanCheckDigit_def toString_def)

lemma weighted_nonneg:
  "\<forall>j<12. 0 \<le> f j \<Longrightarrow> 0 \<le> sum_list (map (\<lambda>j. f j * weight j) [i..<12])"
  by (rule sum_list_nonneg) (auto simp: weight_def)

lemma check_digit_value:
  assumes len: "length B = 12" and dig: "isDigits B"
  shows "calculateEanCheckDigit B = [digitChar (nat ((10 - weighted12 B mod 10) mod 10))]"
    and "0 \<le> weighted12 B"
proof -
  have each: "\<forall>j<12. isDigit (B ! j)"
    using len dig by (simp add: isDigits_def list_all_length)
  have ds: "\<forall>j<12. map Number B ! j = Fin (digitVal (B ! j))"
    using len each by (simp add: Number_digit)
  have loop: "sum_loop (map Number B) 0 (Fin 0) = Fin (weighted12 B)"
    using sum_loop_Fin [of "map Number B" "\<lambda>j. digitVal (B ! j)" 0 0] len ds
    by (simp add: weighted12_def)
  show nn: "0 \<le> weighted12 B"
    unfolding weighted12_def using each by (intro weighted_nonneg) (simp add: isDigit_digitVal)
  let ?c = "(10 - weighted12 B mod 10) mod 10"
  have c: "0 \<le> ?c" "?c < 10" by simp_all
  have "num_rem (num_sub (Fin 10) (num_rem (Fin (weighted12 B)) (Fin 10))) (Fin 10) = Fin ?c"
    by (rule num_check_digit [OF nn])
  then have "calculateEanCheckDigit B = toString (Fin ?c)"
    by (simp only: calculateEanCheckDigit_def Let_def loop)
  also have "\<dots> = decimal (nat ?c)" using c by (simp add: toString_def)
  also have "\<dots> = [digitChar (nat ?c)]" using c by (intro decimal_digit) simp
  finally show "calculateEanCheckDigit B = [digitChar (nat ?c)]" .
qed

lemma ean13_sum_append:
  assumes "length B = 12"
  shows "ean13_sum (B @ [d]) = weighted12 B + digitVal d"
proof -
  let ?g = "\<lambda>i. digitVal ((B @ [d]) ! i) * (if odd i then 3 else 1)"
  have split: "[0..<13] = [0..<12] @ [12]"
    using upt_Suc_append [of 0 12] by simp
  have low: "map ?g [0..<12] = map (\<lambda>j. digitVal (B ! j) * weight j) [0..<12]"
    using assms by (intro map_cong) (auto simp: nth_append weight_def odd_iff_mod_2_eq_one)
  have top: "?g 12 = digitVal d"
    using assms by (simp add: nth_append)
  have "ean13_sum (B @ [d]) = sum_list (map ?g [0..<12]) + ?g 12"
    unfolding ean13_sum_def split by simp
  then show ?thesis
    unfolding low top weighted12_def .
qed

text \<open>
  Claim C1. For every string \<open>B\<close> of 12 decimal digits, \<open>calculateEanCheckDigit B\<close> is one
  decimal digit, and the 13 digits of \<open>B\<close> followed by it have a weighted sum (times 3 at
  the odd indices, times 1 at the even ones) that is 0 modulo 10.
\<close>

theorem check_digit_ean13:
  assumes "length B = 12" and "isDigits B"
  shows "(\<exists>d. isDigit d \<and> calculateEanCheckDigit B = [d])
       \<and> ean13_sum (B @ calculateEanCheckDigit B) mod 10 = 0"
proof -
  let ?c = "(10 - weighted12 B mod 10) mod 10"
  have c: "0 \<le> ?c" "?c < 10" by simp_all
  have cd: "calculateEanCheckDigit B = [digitChar (nat ?c)]"
    using check_digit_value(1) [OF assms] .
  have dig: "isDigit (digitChar (nat ?c))"
    using c by (intro isDigit_digitChar) simp
  have "ean13_sum (B @ [digitChar (nat ?c)]) = weighted12 B + ?c"
    using c assms(1) by (simp add: ean13_sum_append digitVal_digitChar)
  moreover have "(weighted12 B + ?c) mod 10 = 0"
    by presburger
  ultimately show ?thesis using cd dig by simp
qed

theorem check_digit_ean13_witness:
  "length ''789428216684'' = 12 \<and> isDigits ''789428216684''
   \<and> (\<exists>d. isDigit d \<and> calculateEanCheckDigit ''789428216684'' = [d])
   \<and> ean13_sum (''789428216684'' @ calculateEanCheckDigit ''789428216684'') mod 10 = 0"
proof -
  have h1: "length ''789428216684'' = 12" by simp
  have h2: "isDigits ''789428216684''" by (simp add: isDigits_def isDigit_def)
  show ?thesis using h1 h2 check_digit_ean13 [OF h1 h2] by simp
qed

text \<open>
  Claim C8, as amended. The check digit of \<open>000000000000\<close> is \<open>0\<close>; the check digit of
  \<open>789428216684\<close> is \<open>3\<close> (the weighted sum is 127), not \<open>0\<close>.
\<close>

theorem check_digit_examples:
  "calculateEanCheckDigit ''000000000000'' = ''0''
   \<and> calculateEanCheckDigit ''789428216684'' = ''3''"
  by code_simp

text \<open>Claim C8 as stated fails: the second check digit is not \<open>0\<close>.\<close>

theorem check_digit_example_not_0:
  "\<not> (calculateEanCheckDigit ''000000000000'' = ''0''
      \<and> calculateEanCheckDigit ''789428216684'' = ''0'')"
  by code_simp

text \<open>
  Claim C9, as amended. When the input has fewer than 12 characters, or one of its first
  12 characters is neither a decimal digit nor a white-space character, the result is the
  string \<open>NaN\<close>, which is not a decimal digit.
\<close>

theorem check_digit_requires_NaN:
  assumes "length str < 12
     \<or> (\<exists>i<12. i < length str \<and> \<not> isDigit (str ! i) \<and> \<not> isStrWhiteSpace (str ! i))"
  shows "calculateEanCheckDigit str = ''NaN''
     \<and> \<not> (\<exists>d. isDigit d \<and> calculateEanCheckDigit str = [d])"
proof -
  have "\<exists>j<12. digit_at (map Number str) j = NaN"
  proof (cases "length str < 12")
    case True
    then have "digit_at (map Number str) (length str) = NaN"
      by (simp add: digit_at_def)
    with True show ?thesis by blast
  next
    case False
    with assms obtain i where i: "i < 12" "i < length str"
      "\<not> isDigit (str ! i)" "\<not> isStrWhiteSpace (str ! i)" by blast
    then have "digit_at (map Number str) i = NaN"
      by (simp add: digit_at_def Number_def)
    with i show ?thesis by blast
  qed
  then obtain j where "j < 12" "digit_at (map Number str) j = NaN" by blast
  then have "sum_loop (map Number str) 0 (Fin 0) = NaN"
    by (intro sum_loop_hits_NaN [of 0 j]) simp_all
  then have "calculateEanCheckDigit str = ''NaN''"
    by (rule check_digit_of_NaN_sum)
  then show ?thesis by simp
qed

theorem check_digit_requires_NaN_witness:
  "calculateEanCheckDigit ''78942821668a'' = ''NaN'' \<and> calculateEanCheckDigit ''7894'' = ''NaN''"
proof -
  have a: "\<exists>i<12. i < length ''78942821668a'' \<and> \<not> isDigit (''78942821668a'' ! i)
       \<and> \<not> isStrWhiteSpace (''78942821668a'' ! i)"
    by (rule exI [of _ 11]) (simp add: isDigit_def isStrWhiteSpace_def)
  have b: "length ''7894'' < 12" by simp
  show ?thesis
    using check_digit_requires_NaN [of "''78942821668a''"] check_digit_requires_NaN [of "''7894''"] a b
    by blast
qed

text \<open>
  Claim C9 as stated fails at a white-space character: \<open>Number\<close> turns a space into 0, so
  an input whose twelfth character is a space still gets a decimal check digit.
\<close>

theorem check_digit_whitespace_counterexample:
  "\<not> isDigit (CHR '' '') \<and> calculateEanCheckDigit ''78942821668 '' = ''5''"
  by code_simp

section \<open>Printing and parsing decimal numbers\<close>

lemma decimal_not_Nil: "decimal n \<noteq> []"
  by (subst decimal.simps) simp

lemma decimal_all_digits: "list_all isDigit (decimal n)"
proof (induction n rule: decimal.induct)
  case (1 n)
  show ?case
  proof (cases "n < 10")
    case True
    then show ?thesis by (subst decimal.simps) (simp add: isDigit_digitChar)
  next
    case False
    then have "list_all isDigit (decimal (n div 10))" by (rule "1.IH")
    then show ?thesis using False by (subst decimal.simps) (simp add: isDigit_digitChar)
  qed
qed

lemma radixDigit_10: "isDigit c \<Longrightarrow> radixDigit 10 c = Some (nat (digitVal c))"
  by (auto simp: radixDigit_def isDigit_def digitVal_def Let_def)

lemma parseDigits_digits:
  "list_all isDigit s \<Longrightarrow>
   parseDigits 10 s acc cnt = (foldl (\<lambda>a c. a * 10 + nat (digitVal c)) acc s, cnt + length s)"
  by (induction s arbitrary: acc cnt) (simp_all add: radixDigit_10)

lemma digit_not_space: "isDigit c \<Longrightarrow> \<not> isStrWhiteSpace c"
  by (auto simp: isDigit_def isStrWhiteSpace_def)

lemma digit_not_sign: "isDigit c \<Longrightarrow> c \<noteq> CHR ''-'' \<and> c \<noteq> CHR ''+'' \<and> c \<noteq> CHR ''x'' \<and> c \<noteq> CHR ''X''"
  by (auto simp: isDigit_def)

lemma parseInt_digits:
  assumes "s \<noteq> []" and "list_all isDigit s"
  shows "parseInt s = Fin (int (decval s))"
proof -
  obtain c cs where s: "s = c # cs" using assms(1) by (cases s) auto
  have c: "isDigit c" using assms(2) s by simp
  have ws: "dropWhile isStrWhiteSpace s = s"
    using s digit_not_space [OF c] by simp
  have nohex: "(2 \<le> length s \<and> (take 2 s = ''0x'' \<or> take 2 s = ''0X'')) = False"
  proof (cases cs)
    case Nil
    then show ?thesis using s by simp
  next
    case (Cons d ds)
    then have "isDigit d" using assms(2) s by simp
    then show ?thesis using s Cons digit_not_sign [of d] by auto
  qed
  have hd: "hd s \<noteq> CHR ''-''" "hd s \<noteq> CHR ''+''"
    using s digit_not_sign [OF c] by simp_all
  have pd: "parseDigits 10 s 0 0 = (decval s, length s)"
    using parseDigits_digits [OF assms(2), of 0 0] by (simp add: decval_def)
  have len: "length s \<noteq> 0" using assms(1) by simp
  show ?thesis
    unfolding parseInt_def ws Let_def by (simp add: hd nohex pd len assms(1))
qed

lemma decval_append1: "decval (s @ [c]) = decval s * 10 + nat (digitVal c)"
  by (simp add: decval_def)

lemma decval_decimal: "decval (decimal n) = n"
proof (induction n rule: decimal.induct)
  case (1 n)
  show ?case
  proof (cases "n < 10")
    case True
    then show ?thesis
      by (subst decimal.simps) (simp add: decval_def digitVal_digitChar)
  next
    case False
    then have ih: "decval (decimal (n div 10)) = n div 10" by (rule "1.IH")
    have "decval (decimal n) = decval (decimal (n div 10)) * 10 + nat (digitVal (digitChar (n mod 10)))"
      using False by (subst decimal.simps) (simp add: decval_append1)
    then show ?thesis by (simp add: ih digitVal_digitChar)
  qed
qed

lemma decval_zeros: "decval (replicate k CHR ''0'' @ s) = decval s"
proof -
  have "foldl (\<lambda>a c. a * 10 + nat (digitVal c)) 0 (replicate k CHR ''0'') = 0"
    by (induction k) (simp_all add: digitVal_def)
  then show ?thesis by (simp add: decval_def)
qed

lemma length_decimal_le: "0 < k \<Longrightarrow> n < 10 ^ k \<Longrightarrow> length (decimal n) \<le> k"
proof (induction n arbitrary: k rule: decimal.induct)
  case (1 n)
  show ?case
  proof (cases "n < 10")
    case True
    then show ?thesis using "1.prems" by (subst decimal.simps) simp
  next
    case False
    with "1.prems" have k: "1 < k" by (cases "k = 1") auto
    then obtain k' where k': "k = Suc k'" "0 < k'" by (cases k) auto
    have "n div 10 < 10 ^ k'"
      using "1.prems"(2) k' by (simp add: less_mult_imp_div_less mult.commute)
    then have "length (decimal (n div 10)) \<le> k'"
      using "1.IH" [OF False k'(2)] by simp
    then show ?thesis using False k' by (subst decimal.simps) simp
  qed
qed

lemma length_decimal_gt: "10 ^ k \<le> n \<Longrightarrow> k < length (decimal n)"
proof (induction n arbitrary: k rule: decimal.induct)
  case (1 n)
  show ?case
  proof (cases k)
    case 0
    then show ?thesis using decimal_not_Nil [of n] by (cases "decimal n") auto
  next
    case (Suc k')
    then have ge: "10 * 10 ^ k' \<le> n" using "1.prems" by simp
    have "(1::nat) \<le> 10 ^ k'" by simp
    then have nlt: "\<not> n < 10" using ge by linarith
    have "10 ^ k' \<le> n div 10" using ge by (simp add: less_eq_div_iff_mult_less_eq mult.commute)
    then have "k' < length (decimal (n div 10))" using "1.IH" [OF nlt] by simp
    then show ?thesis using nlt Suc by (subst decimal.simps) simp
  qed
qed

lemma padStart_length: "length (padStart w c s) = max w (length s)"
  by (simp add: padStart_def)

lemma padStart_id: "w \<le> length s \<Longrightarrow> padStart w c s = s"
  by (simp add: padStart_def)

lemma toString_nonneg: "0 \<le> k \<Longrightarrow> toString (Fin k) = decimal (nat k)"
  by (simp add: toString_def)

lemma padded_digits: "list_all isDigit (padStart w CHR ''0'' (decimal n))"
proof -
  have "list_all isDigit (replicate (w - length (decimal n)) CHR ''0'')"
    by (simp add: list_all_iff isDigit_def)
  then show ?thesis
    by (simp add: padStart_def decimal_all_digits)
qed

lemma padded_not_Nil: "padStart w c (decimal n) \<noteq> []"
  by (simp add: padStart_def decimal_not_Nil)

lemma padded_parse: "parseInt (padStart w CHR ''0'' (decimal n)) = Fin (int n)"
proof -
  have "decval (padStart w CHR ''0'' (decimal n)) = n"
    by (simp add: padStart_def decval_zeros decval_decimal)
  then show ?thesis
    using parseInt_digits [OF padded_not_Nil padded_digits, of w n] by simp
qed

lemma padded_length_fit:
  "0 < w \<Longrightarrow> n < 10 ^ w \<Longrightarrow> length (padStart w c (decimal n)) = w"
  using length_decimal_le [of w n] by (simp add: padStart_length)

lemma padded_length_over:
  "10 ^ w \<le> n \<Longrightarrow> w < length (padStart w c (decimal n))"
  using length_decimal_gt [of w n] by (simp add: padStart_length)

lemma base12_digits: "0 \<le> k \<Longrightarrow> isDigits (base12 k)"
  by (simp add: base12_def toString_nonneg isDigits_def padded_digits)

lemma base12_parse: "0 \<le> k \<Longrightarrow> parseInt (base12 k) = Fin k"
  by (simp add: base12_def toString_nonneg padded_parse)

lemma base12_length: "0 \<le> k \<Longrightarrow> k \<le> 999999999999 \<Longrightarrow> length (base12 k) = 12"
proof -
  assume k: "0 \<le> k" "k \<le> 999999999999"
  then have "nat k < 10 ^ 12" by simp
  then show ?thesis using k by (simp add: base12_def toString_nonneg padded_length_fit)
qed

lemma base12_long: "999999999999 < k \<Longrightarrow> 12 < length (base12 k)"
proof -
  assume k: "999999999999 < k"
  then have "(10::nat) ^ 12 \<le> nat k" by simp
  then show ?thesis using k by (simp add: base12_def toString_nonneg padded_length_over)
qed

lemma tail4_length: "0 \<le> k \<Longrightarrow> k \<le> 9999 \<Longrightarrow> length (tail4 k) = 4"
proof -
  assume k: "0 \<le> k" "k \<le> 9999"
  then have "nat k < 10 ^ 4" by simp
  then show ?thesis using k by (simp add: tail4_def toString_nonneg padded_length_fit)
qed

lemma tail4_long: "9999 < k \<Longrightarrow> 4 < length (tail4 k)"
proof -
  assume k: "9999 < k"
  then have "(10::nat) ^ 4 \<le> nat k" by simp
  then show ?thesis using k by (simp add: tail4_def toString_nonneg padded_length_over)
qed

lemma tail4_digits: "0 \<le> k \<Longrightarrow> isDigits (tail4 k)"
  by (simp add: tail4_def toString_nonneg isDigits_def padded_digits)

lemma codes_loop_map:
  "codes_loop (Fin n) (Fin q) i acc
     = acc @ map (\<lambda>j. withCheck (base12 (n + int j))) [i..<nat q]"
proof (induction k \<equiv> "nat q - i" arbitrary: i acc)
  case 0
  then have "\<not> int i < q" by linarith
  moreover from 0 have "[i..<nat q] = []" by simp
  ultimately show ?case by (subst codes_loop.simps) simp
next
  case (Suc k)
  then have lt: "int i < q" and k: "k = nat q - Suc i" by linarith+
  have upt: "[i..<nat q] = i # [Suc i..<nat q]"
    using lt by (simp add: upt_conv_Cons)
  show ?case
    using lt Suc.hyps(1) [OF k]
    by (subst codes_loop.simps) (simp add: upt Let_def withCheck_def base12_def)
qed

lemma cnpj_loop_map:
  "cnpj_loop p c (Fin n) (Fin q) i acc
     = acc @ map (\<lambda>j. withCheck (p @ c @ tail4 (n + int j))) [i..<nat q]"
proof (induction k \<equiv> "nat q - i" arbitrary: i acc)
  case 0
  then have "\<not> int i < q" by linarith
  moreover from 0 have "[i..<nat q] = []" by simp
  ultimately show ?case by (subst cnpj_loop.simps) simp
next
  case (Suc k)
  then have lt: "int i < q" and k: "k = nat q - Suc i" by linarith+
  have upt: "[i..<nat q] = i # [Suc i..<nat q]"
    using lt by (simp add: upt_conv_Cons)
  show ?case
    using lt Suc.hyps(1) [OF k]
    by (subst cnpj_loop.simps) (simp add: upt Let_def withCheck_def tail4_def)
qed

lemma good_quantity: "1 \<le> q \<Longrightarrow> q \<le> 1000 \<Longrightarrow> \<not> bad_quantity (Fin q)"
  by (simp add: bad_quantity_def isNaN_def)

lemma bad_quantity_iff:
  "bad_quantity x \<longleftrightarrow> (x = NaN \<or> (\<exists>q. x = Fin q \<and> (q < 1 \<or> 1000 < q)))"
  by (cases x) (auto simp: bad_quantity_def isNaN_def)

section \<open>The generation loops\<close>

lemma codes_loop_general:
  "codes_loop s (Fin q) i acc
     = acc @ map (\<lambda>j. withCheck (padStart 12 CHR ''0'' (toString (num_add s (Fin (int j))))))
               [i..<nat q]"
proof (induction k \<equiv> "nat q - i" arbitrary: i acc)
  case 0
  then have "\<not> int i < q" by linarith
  moreover from 0 have "[i..<nat q] = []" by simp
  ultimately show ?case by (subst codes_loop.simps) simp
next
  case (Suc k)
  then have lt: "int i < q" and k: "k = nat q - Suc i" by linarith+
  have upt: "[i..<nat q] = i # [Suc i..<nat q]"
    using lt by (simp add: upt_conv_Cons)
  show ?case
    using lt Suc.hyps(1) [OF k]
    by (subst codes_loop.simps) (simp add: upt Let_def withCheck_def)
qed

lemma last_map_upt: "0 < m \<Longrightarrow> last (map f [0..<m]) = f (m - 1)"
  by (cases m) simp_all

lemma baseCode_withCheck: "baseCode (withCheck b) = b"
  by (simp add: withCheck_def)

lemma code_withCheck: "code (withCheck b) = b @ calculateEanCheckDigit b"
  by (simp add: withCheck_def)

lemma free_result:
  assumes "length (baseCode_input fs) = 12" and "isDigits (baseCode_input fs)"
    and "parseInt (baseCode_input fs) = Fin n"
    and "parseInt (quantity fs) = Fin q" and "1 \<le> q" and "q \<le> 1000"
  shows "generateEans_free fs =
     Inr ([OkGenerated (Fin q)],
          fs\<lparr>lastBaseCode := base12 (n + q - 1),
             localStorage := Some (base12 (n + q - 1)),
             generatedCodes := map (\<lambda>i. withCheck (base12 (n + int i))) [0..<nat q]\<rparr>)"
proof -
  let ?codes = "map (\<lambda>i. withCheck (base12 (n + int i))) [0..<nat q]"
  have re: "all_digits_re (baseCode_input fs)"
    using assms(1,2) by (auto simp: all_digits_re_def isDigits_def)
  have ok: "\<not> bad_quantity (Fin q)"
    using assms(5,6) by (rule good_quantity)
  have loop: "codes_loop (Fin n) (Fin q) 0 [] = ?codes"
    by (simp add: codes_loop_map)
  have pos: "0 < nat q" using assms(5) by simp
  then have ne: "?codes \<noteq> []" by simp
  have lst: "baseCode (last ?codes) = base12 (n + q - 1)"
  proof -
    have "last ?codes = withCheck (base12 (n + int (nat q - 1)))"
      using pos by (rule last_map_upt)
    moreover have "n + int (nat q - 1) = n + q - 1"
      using assms(5) by simp
    ultimately show ?thesis by (simp only: baseCode_withCheck)
  qed
  show ?thesis
    unfolding generateEans_free_def Let_def assms(3,4) loop
    using assms(1) re ok ne lst by simp
qed

lemma saved_codes:
  assumes "selectedBase ss = Some sel" and "user ss = Some u"
    and "parseInt (quantity ss) = Fin q" and "1 \<le> q" and "q \<le> 1000"
  shows "\<exists>ts ss'. generateEans_saved w ss = Inr (ts, ss')
       \<and> generatedCodes ss' = codes_loop (parseInt (last_base_code sel)) (Fin q) 0 []"
proof -
  have ok: "\<not> bad_quantity (Fin q)"
    using assms(4,5) by (rule good_quantity)
  have "0 < nat q" using assms(4) by simp
  then have "[0..<nat q] \<noteq> []" by simp
  then have ne: "codes_loop (parseInt (last_base_code sel)) (Fin q) 0 [] \<noteq> []"
    by (simp add: codes_loop_general)
  show ?thesis
    unfolding generateEans_saved_def Let_def assms(1,2,3)
    using ok ne by (cases w) simp_all
qed

lemma saved_result_ok:
  assumes "selectedBase ss = Some sel" and "user ss = Some u"
    and "parseInt (last_base_code sel) = Fin n" and "0 \<le> n"
    and "parseInt (quantity ss) = Fin q" and "1 \<le> q" and "q \<le> 1000"
  shows "generateEans_saved True ss =
     Inr ([OkGenerated (Fin q)],
          ss\<lparr>database := update_last_base_code (base_id sel) (base12 (n + q)) (database ss),
             selectedBase := Some (sel\<lparr>last_base_code := base12 (n + q)\<rparr>),
             savedBases := map (\<lambda>b. if base_id b = base_id sel
                                     then sel\<lparr>last_base_code := base12 (n + q)\<rparr> else b)
                             (savedBases ss),
             generatedCodes := map (\<lambda>i. withCheck (base12 (n + int i))) [0..<nat q]\<rparr>)"
proof -
  let ?codes = "map (\<lambda>i. withCheck (base12 (n + int i))) [0..<nat q]"
  have ok: "\<not> bad_quantity (Fin q)"
    using assms(6,7) by (rule good_quantity)
  have loop: "codes_loop (Fin n) (Fin q) 0 [] = ?codes"
    by (simp add: codes_loop_map)
  have pos: "0 < nat q" using assms(6) by simp
  then have ne: "?codes \<noteq> []" by simp
  have lst: "baseCode (last ?codes) = base12 (n + q - 1)"
  proof -
    have "last ?codes = withCheck (base12 (n + int (nat q - 1)))"
      using pos by (rule last_map_upt)
    moreover have "n + int (nat q - 1) = n + q - 1"
      using assms(6) by simp
    ultimately show ?thesis by (simp only: baseCode_withCheck)
  qed
  have "parseInt (base12 (n + q - 1)) = Fin (n + q - 1)"
    using assms(4,6) by (intro base12_parse) simp
  then have nxt: "padStart 12 CHR ''0'' (toString (num_add (parseInt (base12 (n + q - 1))) (Fin 1)))
      = base12 (n + q)"
    by (simp add: base12_def)
  show ?thesis
    unfolding generateEans_saved_def Let_def assms(1,2,5)
    using ok pos by (simp add: assms(3) loop lst nxt)
qed

lemma saved_result_failed:
  assumes "selectedBase ss = Some sel" and "user ss = Some u"
    and "parseInt (quantity ss) = Fin q" and "1 \<le> q" and "q \<le> 1000"
  shows "generateEans_saved False ss =
     Inr ([ErrSave, OkGenerated (Fin q)],
          ss\<lparr>generatedCodes := codes_loop (parseInt (last_base_code sel)) (Fin q) 0 []\<rparr>)"
proof -
  have ok: "\<not> bad_quantity (Fin q)"
    using assms(4,5) by (rule good_quantity)
  have "0 < nat q" using assms(4) by simp
  then have "[0..<nat q] \<noteq> []" by simp
  then have ne: "codes_loop (parseInt (last_base_code sel)) (Fin q) 0 [] \<noteq> []"
    by (simp add: codes_loop_general)
  show ?thesis
    unfolding generateEans_saved_def Let_def assms(1,2,3)
    using ok ne by simp
qed

lemma digits_parse_nonneg:
  assumes "s \<noteq> []" and "isDigits s" and "parseInt s = Fin n"
  shows "0 \<le> n"
  using parseInt_digits [OF assms(1)] assms(2,3) by (simp add: isDigits_def)

section \<open>The batch a call generates\<close>

lemma batch_ascending:
  assumes "0 \<le> n"
  shows "sorted_wrt (\<lambda>x y. num_lt (parseInt (baseCode x)) (parseInt (baseCode y)))
           (map (\<lambda>i. withCheck (base12 (n + int i))) [0..<m])"
proof -
  have "num_lt (parseInt (base12 (n + int i))) (parseInt (base12 (n + int j)))" if "i < j" for i j
    using that assms by (simp add: base12_parse)
  then show ?thesis
    by (simp add: sorted_wrt_iff_nth_less baseCode_withCheck)
qed

text \<open>
  Claim C2. For a start of 12 decimal digits with value \<open>n\<close> and a quantity \<open>q\<close> from 1 to
  1000 with \<open>n + q - 1\<close> within 12 digits, the free-form component and the database
  component (whether or not its write succeeds) generate the same \<open>q\<close> entries; entry \<open>i\<close>
  has the base code of \<open>n + i\<close>, which is 12 decimal digits and reads back as \<open>n + i\<close>,
  and the full code is the base code followed by its check digit; the base codes ascend
  strictly.
\<close>

theorem batch_contents:
  assumes "length b = 12" and "isDigits b" and "parseInt b = Fin n"
    and "parseInt qs = Fin q" and "1 \<le> q" and "q \<le> 1000"
    and "n + q - 1 \<le> 999999999999"
    and "baseCode_input fs = b" and "quantity fs = qs"
    and "selectedBase ss = Some sel" and "user ss = Some u"
    and "last_base_code sel = b" and "quantity ss = qs"
  shows "\<exists>ts fs' ts' ss'.
      generateEans_free fs = Inr (ts, fs') \<and> generateEans_saved w ss = Inr (ts', ss')
    \<and> generatedCodes ss' = generatedCodes fs'
    \<and> length (generatedCodes fs') = nat q
    \<and> (\<forall>i<nat q.
          baseCode (generatedCodes fs' ! i) = base12 (n + int i)
        \<and> length (base12 (n + int i)) = 12 \<and> isDigits (base12 (n + int i))
        \<and> parseInt (base12 (n + int i)) = Fin (n + int i)
        \<and> code (generatedCodes fs' ! i)
            = base12 (n + int i) @ calculateEanCheckDigit (base12 (n + int i)))
    \<and> sorted_wrt (\<lambda>x y. num_lt (parseInt (baseCode x)) (parseInt (baseCode y)))
         (generatedCodes fs')"
proof -
  let ?codes = "map (\<lambda>i. withCheck (base12 (n + int i))) [0..<nat q]"
  have ne: "b \<noteq> []" using assms(1) by auto
  have n0: "0 \<le> n" using ne assms(2,3) by (rule digits_parse_nonneg)
  have free: "generateEans_free fs =
     Inr ([OkGenerated (Fin q)],
          fs\<lparr>lastBaseCode := base12 (n + q - 1),
             localStorage := Some (base12 (n + q - 1)),
             generatedCodes := ?codes\<rparr>)"
    using assms(1-6,8,9) by (intro free_result) simp_all
  obtain ts' ss' where saved: "generateEans_saved w ss = Inr (ts', ss')"
      and "generatedCodes ss' = codes_loop (parseInt (last_base_code sel)) (Fin q) 0 []"
    using saved_codes [of ss sel u q w] assms(4,5,6,10,11,13) by auto
  then have same: "generatedCodes ss' = ?codes"
    using assms(3,12) by (simp add: codes_loop_map)
  have each: "baseCode (?codes ! i) = base12 (n + int i)
        \<and> length (base12 (n + int i)) = 12 \<and> isDigits (base12 (n + int i))
        \<and> parseInt (base12 (n + int i)) = Fin (n + int i)
        \<and> code (?codes ! i) = base12 (n + int i) @ calculateEanCheckDigit (base12 (n + int i))"
    if "i < nat q" for i
  proof -
    have lo: "0 \<le> n + int i" using n0 by simp
    have hi: "n + int i \<le> 999999999999" using that assms(7) by linarith
    show ?thesis
      using that lo hi
      by (simp add: baseCode_withCheck code_withCheck base12_length base12_digits base12_parse)
  qed
  have asc: "sorted_wrt (\<lambda>x y. num_lt (parseInt (baseCode x)) (parseInt (baseCode y))) ?codes"
    using n0 by (rule batch_ascending)
  define fs' where "fs' = fs\<lparr>lastBaseCode := base12 (n + q - 1),
             localStorage := Some (base12 (n + q - 1)),
             generatedCodes := ?codes\<rparr>"
  have g: "generatedCodes fs' = ?codes" by (simp add: fs'_def)
  have F1: "generateEans_free fs = Inr ([OkGenerated (Fin q)], fs')"
    using free by (simp only: fs'_def)
  have F3: "generatedCodes ss' = generatedCodes fs'"
    using same g by simp
  have F4: "length (generatedCodes fs') = nat q"
    unfolding g by simp
  have F5: "\<forall>i<nat q.
          baseCode (generatedCodes fs' ! i) = base12 (n + int i)
        \<and> length (base12 (n + int i)) = 12 \<and> isDigits (base12 (n + int i))
        \<and> parseInt (base12 (n + int i)) = Fin (n + int i)
        \<and> code (generatedCodes fs' ! i)
            = base12 (n + int i) @ calculateEanCheckDigit (base12 (n + int i))"
    unfolding g using each by blast
  have F6: "sorted_wrt (\<lambda>x y. num_lt (parseInt (baseCode x)) (parseInt (baseCode y)))
         (generatedCodes fs')"
    unfolding g using asc .
  show ?thesis
    using F1 saved F3 F4 F5 F6 by blast
qed

theorem batch_contents_witness:
  "length ''000000000000'' = 12 \<and> isDigits ''000000000000''
   \<and> parseInt ''000000000000'' = Fin 0 \<and> parseInt ''3'' = Fin 3
   \<and> (\<exists>ts fs' ts' ss'.
        generateEans_free \<lparr>quantity = ''3'', generatedCodes = [], lastBaseCode = [],
            localStorage = None, baseCode_input = ''000000000000''\<rparr> = Inr (ts, fs')
      \<and> generateEans_saved True \<lparr>quantity = ''3'', generatedCodes = [], user = Some ''u'',
            savedBases = [], selectedBase = Some \<lparr>base_id = ''a'', name = ''n'',
              cnpj_prefix = ''00000'', last_base_code = ''000000000000''\<rparr>,
            database = []\<rparr> = Inr (ts', ss')
      \<and> generatedCodes ss' = generatedCodes fs'
      \<and> length (generatedCodes fs') = 3)"
proof -
  have h1: "length ''000000000000'' = 12" by simp
  have h2: "isDigits ''000000000000''" by (simp add: isDigits_def isDigit_def)
  have h3: "parseInt ''000000000000'' = Fin 0" by code_simp
  have h4: "parseInt ''3'' = Fin 3" by code_simp
  show ?thesis
    using h1 h2 h3 h4
      batch_contents [OF h1 h2 h3 h4, of
        "\<lparr>quantity = ''3'', generatedCodes = [], lastBaseCode = [],
            localStorage = None, baseCode_input = ''000000000000''\<rparr>"
        "\<lparr>quantity = ''3'', generatedCodes = [], user = Some ''u'',
            savedBases = [], selectedBase = Some \<lparr>base_id = ''a'', name = ''n'',
              cnpj_prefix = ''00000'', last_base_code = ''000000000000''\<rparr>,
            database = []\<rparr>"
        "\<lparr>base_id = ''a'', name = ''n'',
              cnpj_prefix = ''00000'', last_base_code = ''000000000000''\<rparr>" "''u''" True]
    by (simp del: One_nat_def) blast
qed

section \<open>The cursor a call stores\<close>

lemma batch_last:
  assumes "1 \<le> q"
  shows "baseCode (last (map (\<lambda>i. withCheck (base12 (n + int i))) [0..<nat q])) = base12 (n + q - 1)"
proof -
  have "0 < nat q" using assms by simp
  then have "last (map (\<lambda>i. withCheck (base12 (n + int i))) [0..<nat q])
      = withCheck (base12 (n + int (nat q - 1)))"
    by (rule last_map_upt)
  moreover have "n + int (nat q - 1) = n + q - 1" using assms by simp
  ultimately show ?thesis by (simp only: baseCode_withCheck)
qed

text \<open>
  Claim C3, as amended. After a batch of \<open>q\<close> codes from the start \<open>n\<close>, the database
  component (when its write succeeds) stores the base code of \<open>n + q\<close>, the successor of
  the last base code generated, in the table and in the selected base; it has 12 digits
  when \<open>n + q\<close> fits. The free-form component stores the last base code generated itself,
  the base code of \<open>n + q - 1\<close>, in its state and in local storage.
\<close>

theorem cursor_after_batch:
  assumes "length b = 12" and "isDigits b" and "parseInt b = Fin n"
    and "parseInt qs = Fin q" and "1 \<le> q" and "q \<le> 1000"
    and "baseCode_input fs = b" and "quantity fs = qs"
    and "selectedBase ss = Some sel" and "user ss = Some u"
    and "last_base_code sel = b" and "quantity ss = qs"
  shows "\<exists>ts fs' ts' ss' sel'.
      generateEans_saved True ss = Inr (ts', ss')
    \<and> selectedBase ss' = Some sel' \<and> last_base_code sel' = base12 (n + q)
    \<and> database ss' = update_last_base_code (base_id sel) (base12 (n + q)) (database ss)
    \<and> parseInt (base12 (n + q)) = Fin (n + q)
    \<and> (n + q \<le> 999999999999 \<longrightarrow> length (base12 (n + q)) = 12)
    \<and> generateEans_free fs = Inr (ts, fs')
    \<and> localStorage fs' = Some (base12 (n + q - 1))
    \<and> lastBaseCode fs' = base12 (n + q - 1)
    \<and> baseCode (last (generatedCodes fs')) = base12 (n + q - 1)"
proof -
  let ?codes = "map (\<lambda>i. withCheck (base12 (n + int i))) [0..<nat q]"
  have ne: "b \<noteq> []" using assms(1) by auto
  have n0: "0 \<le> n" using ne assms(2,3) by (rule digits_parse_nonneg)
  define fs' where "fs' = fs\<lparr>lastBaseCode := base12 (n + q - 1),
             localStorage := Some (base12 (n + q - 1)),
             generatedCodes := ?codes\<rparr>"
  define sel' where "sel' = sel\<lparr>last_base_code := base12 (n + q)\<rparr>"
  define ss' where "ss' = ss\<lparr>database := update_last_base_code (base_id sel) (base12 (n + q)) (database ss),
             selectedBase := Some sel',
             savedBases := map (\<lambda>b. if base_id b = base_id sel then sel' else b) (savedBases ss),
             generatedCodes := ?codes\<rparr>"
  have F: "generateEans_free fs = Inr ([OkGenerated (Fin q)], fs')"
    unfolding fs'_def using assms(1-8) by (intro free_result) simp_all
  have S: "generateEans_saved True ss = Inr ([OkGenerated (Fin q)], ss')"
    unfolding ss'_def sel'_def using assms(3-6,9-12) n0 by (intro saved_result_ok) simp_all
  have p: "parseInt (base12 (n + q)) = Fin (n + q)"
    using n0 assms(5) by (intro base12_parse) simp
  have l: "n + q \<le> 999999999999 \<longrightarrow> length (base12 (n + q)) = 12"
    using n0 assms(5) by (simp add: base12_length)
  have lst: "baseCode (last (generatedCodes fs')) = base12 (n + q - 1)"
    using assms(5) by (simp add: fs'_def batch_last del: map_eq_conv)
  have s1: "selectedBase ss' = Some sel'" "last_base_code sel' = base12 (n + q)"
    "database ss' = update_last_base_code (base_id sel) (base12 (n + q)) (database ss)"
    by (simp_all add: ss'_def sel'_def)
  have f1: "localStorage fs' = Some (base12 (n + q - 1))" "lastBaseCode fs' = base12 (n + q - 1)"
    by (simp_all add: fs'_def)
  show ?thesis
    using F S p l lst s1 f1 by blast
qed

theorem cursor_after_batch_witness:
  "length ''000000000041'' = 12 \<and> isDigits ''000000000041''
   \<and> parseInt ''000000000041'' = Fin 41 \<and> parseInt ''2'' = Fin 2
   \<and> (\<exists>ts' ss' sel'.
        generateEans_saved True \<lparr>quantity = ''2'', generatedCodes = [], user = Some ''u'',
            savedBases = [], selectedBase = Some \<lparr>base_id = ''a'', name = ''n'',
              cnpj_prefix = ''12345'', last_base_code = ''000000000041''\<rparr>,
            database = []\<rparr> = Inr (ts', ss')
      \<and> selectedBase ss' = Some sel' \<and> last_base_code sel' = base12 (41 + 2))
   \<and> (\<exists>ts fs'.
        generateEans_free \<lparr>quantity = ''2'', generatedCodes = [], lastBaseCode = [],
            localStorage = None, baseCode_input = ''000000000041''\<rparr> = Inr (ts, fs')
      \<and> localStorage fs' = Some (base12 (41 + 2 - 1)))"
proof -
  let ?sel = "\<lparr>base_id = ''a'', name = ''n'',
              cnpj_prefix = ''12345'', last_base_code = ''000000000041''\<rparr>"
  let ?ss = "\<lparr>quantity = ''2'', generatedCodes = [], user = Some ''u'',
            savedBases = [], selectedBase = Some ?sel, database = []\<rparr>"
  let ?fs = "\<lparr>quantity = ''2'', generatedCodes = [], lastBaseCode = [],
            localStorage = None, baseCode_input = ''000000000041''\<rparr>"
  have h1: "length ''000000000041'' = 12" by simp
  have h2: "isDigits ''000000000041''" by (simp add: isDigits_def isDigit_def)
  have h3: "parseInt ''000000000041'' = Fin 41" by code_simp
  have h4: "parseInt ''2'' = Fin 2" by code_simp
  have h5: "(1::int) \<le> 2" "(2::int) \<le> 1000" by simp_all
  have h6: "baseCode_input ?fs = ''000000000041''" "quantity ?fs = ''2''"
    "selectedBase ?ss = Some ?sel" "user ?ss = Some ''u''"
    "last_base_code ?sel = ''000000000041''" "quantity ?ss = ''2''"
    by simp_all
  obtain ts fs' ts' ss' sel' where
    "generateEans_saved True ?ss = Inr (ts', ss')"
    "selectedBase ss' = Some sel'" "last_base_code sel' = base12 (41 + 2)"
    "generateEans_free ?fs = Inr (ts, fs')"
    "localStorage fs' = Some (base12 (41 + 2 - 1))"
    using cursor_after_batch [OF h1 h2 h3 h4 h5 h6] by (elim exE conjE)
  then have "(\<exists>ts' ss' sel'. generateEans_saved True ?ss = Inr (ts', ss')
      \<and> selectedBase ss' = Some sel' \<and> last_base_code sel' = base12 (41 + 2))"
    and "(\<exists>ts fs'. generateEans_free ?fs = Inr (ts, fs')
      \<and> localStorage fs' = Some (base12 (41 + 2 - 1)))"
    by blast+
  with h1 h2 h3 h4 show ?thesis by (intro conjI)
qed

text \<open>
  Claim C3 as stated fails for the free-form component: after 3 codes from
  \<open>000000000000\<close> it stores \<open>000000000002\<close>, the last base code, and not \<open>000000000003\<close>.
\<close>

theorem cursor_local_counterexample:
  "generateEans_free \<lparr>quantity = ''3'', generatedCodes = [], lastBaseCode = [],
       localStorage = None, baseCode_input = ''000000000000''\<rparr>
     = Inr ([OkGenerated (Fin 3)],
            \<lparr>quantity = ''3'',
             generatedCodes =
               [\<lparr>code = ''0000000000000'', baseCode = ''000000000000''\<rparr>,
                \<lparr>code = ''0000000000017'', baseCode = ''000000000001''\<rparr>,
                \<lparr>code = ''0000000000024'', baseCode = ''000000000002''\<rparr>],
             lastBaseCode = ''000000000002'',
             localStorage = Some ''000000000002'',
             baseCode_input = ''000000000000''\<rparr>)
   \<and> base12 (0 + 3) = ''000000000003''"
  by code_simp

section \<open>Rejected calls\<close>

text \<open>
  Claim C4, as amended. The free-form component rejects a base code that is not exactly
  12 decimal digits and a quantity that is \<open>NaN\<close> or outside 1 to 1000, and the database
  component rejects such a quantity: each shows one error toast and leaves the whole state
  as it was, the list of generated codes and the cursor included.
\<close>

theorem rejected_call_keeps_state:
  "(length (baseCode_input fs) \<noteq> 12 \<or> \<not> isDigits (baseCode_input fs)
      \<or> parseInt (quantity fs) = NaN
      \<or> (\<exists>q. parseInt (quantity fs) = Fin q \<and> (q < 1 \<or> 1000 < q))
     \<longrightarrow> (\<exists>e. isError e \<and> generateEans_free fs = Inr ([e], fs)))
   \<and> (selectedBase ss = Some sel \<and> user ss = Some u
      \<and> (parseInt (quantity ss) = NaN
         \<or> (\<exists>q. parseInt (quantity ss) = Fin q \<and> (q < 1 \<or> 1000 < q)))
     \<longrightarrow> generateEans_saved w ss = Inr ([ErrQuantity], ss))"
proof (intro conjI impI)
  assume bad: "length (baseCode_input fs) \<noteq> 12 \<or> \<not> isDigits (baseCode_input fs)
      \<or> parseInt (quantity fs) = NaN
      \<or> (\<exists>q. parseInt (quantity fs) = Fin q \<and> (q < 1 \<or> 1000 < q))"
  show "\<exists>e. isError e \<and> generateEans_free fs = Inr ([e], fs)"
  proof (cases "length (baseCode_input fs) \<noteq> 12")
    case True
    then have "generateEans_free fs = Inr ([ErrBaseLength], fs)"
      by (simp add: generateEans_free_def)
    then show ?thesis by (intro exI [of _ ErrBaseLength]) simp
  next
    case len: False
    show ?thesis
    proof (cases "all_digits_re (baseCode_input fs)")
      case False
      then have "generateEans_free fs = Inr ([ErrBaseDigits], fs)"
        using len by (simp add: generateEans_free_def)
      then show ?thesis by (intro exI [of _ ErrBaseDigits]) simp
    next
      case True
      then have "isDigits (baseCode_input fs)"
        by (simp add: all_digits_re_def isDigits_def)
      with bad len have "bad_quantity (parseInt (quantity fs))"
        by (auto simp: bad_quantity_iff)
      then have "generateEans_free fs = Inr ([ErrQuantity], fs)"
        using len True by (simp add: generateEans_free_def Let_def)
      then show ?thesis by (intro exI [of _ ErrQuantity]) simp
    qed
  qed
next
  assume a: "selectedBase ss = Some sel \<and> user ss = Some u
      \<and> (parseInt (quantity ss) = NaN
         \<or> (\<exists>q. parseInt (quantity ss) = Fin q \<and> (q < 1 \<or> 1000 < q)))"
  then have "bad_quantity (parseInt (quantity ss))"
    by (auto simp: bad_quantity_iff)
  then show "generateEans_saved w ss = Inr ([ErrQuantity], ss)"
    using a by (simp add: generateEans_saved_def Let_def)
qed

theorem rejected_call_keeps_state_witness:
  "parseInt ''0'' = Fin 0 \<and> parseInt ''1001'' = Fin 1001
   \<and> (\<exists>e. isError e \<and>
        generateEans_free \<lparr>quantity = ''0'', generatedCodes = [], lastBaseCode = [],
            localStorage = None, baseCode_input = ''000000000041''\<rparr>
        = Inr ([e], \<lparr>quantity = ''0'', generatedCodes = [], lastBaseCode = [],
            localStorage = None, baseCode_input = ''000000000041''\<rparr>))
   \<and> generateEans_saved True \<lparr>quantity = ''1001'', generatedCodes = [], user = Some ''u'',
            savedBases = [], selectedBase = Some \<lparr>base_id = ''a'', name = ''n'',
              cnpj_prefix = ''12345'', last_base_code = ''000000000041''\<rparr>,
            database = []\<rparr>
        = Inr ([ErrQuantity], \<lparr>quantity = ''1001'', generatedCodes = [], user = Some ''u'',
            savedBases = [], selectedBase = Some \<lparr>base_id = ''a'', name = ''n'',
              cnpj_prefix = ''12345'', last_base_code = ''000000000041''\<rparr>,
            database = []\<rparr>)"
proof -
  let ?sel = "\<lparr>base_id = ''a'', name = ''n'',
              cnpj_prefix = ''12345'', last_base_code = ''000000000041''\<rparr>"
  let ?ss = "\<lparr>quantity = ''1001'', generatedCodes = [], user = Some ''u'',
            savedBases = [], selectedBase = Some ?sel, database = []\<rparr>"
  let ?fs = "\<lparr>quantity = ''0'', generatedCodes = [], lastBaseCode = [],
            localStorage = None, baseCode_input = ''000000000041''\<rparr>"
  have h1: "parseInt ''0'' = Fin 0" by code_simp
  have h2: "parseInt ''1001'' = Fin 1001" by code_simp
  have f: "\<exists>q. parseInt (quantity ?fs) = Fin q \<and> (q < 1 \<or> 1000 < q)"
    using h1 by simp
  have s: "\<exists>q. parseInt (quantity ?ss) = Fin q \<and> (q < 1 \<or> 1000 < q)"
    using h2 by simp
  have s': "selectedBase ?ss = Some ?sel" "user ?ss = Some ''u''" by simp_all
  note t = rejected_call_keeps_state [of ?fs ?ss ?sel "''u''" True]
  have "\<exists>e. isError e \<and> generateEans_free ?fs = Inr ([e], ?fs)"
    using t f by blast
  moreover have "generateEans_saved True ?ss = Inr ([ErrQuantity], ?ss)"
    using t s s' by blast
  ultimately show ?thesis using h1 h2 by (intro conjI)
qed

text \<open>
  Claim C4 as stated fails where it says the list of generated codes is empty: a rejected
  call leaves the list of an earlier batch on screen.
\<close>

theorem rejected_call_keeps_old_codes:
  "generateEans_free
      \<lparr>quantity = ''0'',
       generatedCodes = [\<lparr>code = ''0000000000000'', baseCode = ''000000000000''\<rparr>],
       lastBaseCode = ''000000000000'', localStorage = Some ''000000000000'',
       baseCode_input = ''000000000000''\<rparr>
    = Inr ([ErrQuantity],
        \<lparr>quantity = ''0'',
         generatedCodes = [\<lparr>code = ''0000000000000'', baseCode = ''000000000000''\<rparr>],
         lastBaseCode = ''000000000000'', localStorage = Some ''000000000000'',
         baseCode_input = ''000000000000''\<rparr>)
   \<and> generatedCodes
        \<lparr>quantity = ''0'',
         generatedCodes = [\<lparr>code = ''0000000000000'', baseCode = ''000000000000''\<rparr>],
         lastBaseCode = ''000000000000'', localStorage = Some ''000000000000'',
         baseCode_input = ''000000000000''\<rparr> \<noteq> []"
  by code_simp

section \<open>Consecutive batches\<close>

lemma base12_inj:
  assumes "0 \<le> j" and "0 \<le> k" and "base12 j = base12 k"
  shows "j = k"
proof -
  have "Fin j = parseInt (base12 j)" using assms(1) by (simp only: base12_parse)
  also have "\<dots> = parseInt (base12 k)" by (simp only: assms(3))
  also have "\<dots> = Fin k" using assms(2) by (simp only: base12_parse)
  finally show ?thesis by simp
qed

lemma run_distinct:
  assumes "0 \<le> n"
  shows "distinct (map (\<lambda>i. base12 (n + int i)) [0..<m])"
proof -
  have "inj_on (\<lambda>i. base12 (n + int i)) (set [0..<m])"
  proof (rule inj_onI)
    fix x y assume "base12 (n + int x) = base12 (n + int y)"
    moreover have "0 \<le> n + int x" "0 \<le> n + int y" using assms by simp_all
    ultimately have "n + int x = n + int y" by (intro base12_inj) simp_all
    then show "x = y" by simp
  qed
  then show ?thesis by (simp add: distinct_map)
qed

lemma run_shift:
  "map (\<lambda>i. f (n + q + int i)) [0..<m] = map (\<lambda>i. f (n + int i)) [nat q..<nat q + m]" if "0 \<le> q"
proof (rule nth_equalityI)
  show "length (map (\<lambda>i. f (n + q + int i)) [0..<m]) = length (map (\<lambda>i. f (n + int i)) [nat q..<nat q + m])"
    by simp
next
  fix i assume "i < length (map (\<lambda>i. f (n + q + int i)) [0..<m])"
  then have i: "i < m" by simp
  show "map (\<lambda>i. f (n + q + int i)) [0..<m] ! i = map (\<lambda>i. f (n + int i)) [nat q..<nat q + m] ! i"
    using i that by (simp add: add.assoc)
qed

lemma run_append:
  assumes "0 \<le> q1" and "0 \<le> q2"
  shows "map (\<lambda>i. f (n + int i)) [0..<nat q1] @ map (\<lambda>i. f (n + q1 + int i)) [0..<nat q2]
       = map (\<lambda>i. f (n + int i)) [0..<nat (q1 + q2)]"
proof -
  have "nat (q1 + q2) = nat q1 + nat q2"
    using assms by (simp add: nat_add_distrib)
  moreover have "[0..<nat q1 + nat q2] = [0..<nat q1] @ [nat q1..<nat q1 + nat q2]"
    by (rule upt_add_eq_append) simp
  ultimately have "[0..<nat (q1 + q2)] = [0..<nat q1] @ [nat q1..<nat q1 + nat q2]"
    by (simp only:)
  moreover have "map (\<lambda>i. f (n + q1 + int i)) [0..<nat q2]
      = map (\<lambda>i. f (n + int i)) [nat q1..<nat q1 + nat q2]"
    using assms(1) by (rule run_shift)
  ultimately show ?thesis
    by (simp only: map_append)
qed

text \<open>
  Claim C5. In the database component, a batch of \<open>q1\<close> codes whose write succeeds,
  followed by a batch of \<open>q2\<close> codes from the state it leaves, gives base codes that are
  disjoint, and together exactly the base codes of \<open>n\<close>, \<open>n + 1\<close>, ..., \<open>n + q1 + q2 - 1\<close>
  in this order, with no repetition.
\<close>

theorem consecutive_batches:
  assumes "length b = 12" and "isDigits b" and "parseInt b = Fin n"
    and "parseInt qs1 = Fin q1" and "1 \<le> q1" and "q1 \<le> 1000"
    and "parseInt qs2 = Fin q2" and "1 \<le> q2" and "q2 \<le> 1000"
    and "selectedBase ss = Some sel" and "user ss = Some u"
    and "last_base_code sel = b" and "quantity ss = qs1"
  shows "\<exists>ts1 ss1 ts2 ss2.
      generateEans_saved True ss = Inr (ts1, ss1)
    \<and> generateEans_saved w (ss1\<lparr>quantity := qs2\<rparr>) = Inr (ts2, ss2)
    \<and> set (map baseCode (generatedCodes ss1)) \<inter> set (map baseCode (generatedCodes ss2)) = {}
    \<and> map baseCode (generatedCodes ss1 @ generatedCodes ss2)
        = map (\<lambda>i. base12 (n + int i)) [0..<nat (q1 + q2)]
    \<and> map (\<lambda>c. parseInt (baseCode c)) (generatedCodes ss1 @ generatedCodes ss2)
        = map (\<lambda>i. Fin (n + int i)) [0..<nat (q1 + q2)]
    \<and> distinct (map baseCode (generatedCodes ss1 @ generatedCodes ss2))"
proof -
  let ?c1 = "map (\<lambda>i. withCheck (base12 (n + int i))) [0..<nat q1]"
  let ?c2 = "map (\<lambda>i. withCheck (base12 (n + q1 + int i))) [0..<nat q2]"
  let ?run = "map (\<lambda>i. base12 (n + int i)) [0..<nat (q1 + q2)]"
  have ne: "b \<noteq> []" using assms(1) by auto
  have n0: "0 \<le> n" using ne assms(2,3) by (rule digits_parse_nonneg)
  define sel1 where "sel1 = sel\<lparr>last_base_code := base12 (n + q1)\<rparr>"
  define ss1 where "ss1 = ss\<lparr>database := update_last_base_code (base_id sel) (base12 (n + q1)) (database ss),
             selectedBase := Some sel1,
             savedBases := map (\<lambda>b. if base_id b = base_id sel then sel1 else b) (savedBases ss),
             generatedCodes := ?c1\<rparr>"
  have S1: "generateEans_saved True ss = Inr ([OkGenerated (Fin q1)], ss1)"
    unfolding ss1_def sel1_def using assms(3-6,10-13) n0 by (intro saved_result_ok) simp_all
  have g1: "generatedCodes ss1 = ?c1" by (simp add: ss1_def)
  have p: "parseInt (last_base_code sel1) = Fin (n + q1)"
    using n0 assms(5) by (simp add: sel1_def base12_parse)
  obtain ts2 ss2 where S2: "generateEans_saved w (ss1\<lparr>quantity := qs2\<rparr>) = Inr (ts2, ss2)"
      and "generatedCodes ss2 = codes_loop (parseInt (last_base_code sel1)) (Fin q2) 0 []"
    using saved_codes [of "ss1\<lparr>quantity := qs2\<rparr>" sel1 u q2 w] assms(7,8,9,11)
    by (auto simp: ss1_def)
  then have g2: "generatedCodes ss2 = ?c2"
    by (simp add: p codes_loop_map)
  have names: "map baseCode (generatedCodes ss1 @ generatedCodes ss2) = ?run"
    using run_append [of q1 q2 base12 n] assms(5,8)
    by (simp add: g1 g2 comp_def baseCode_withCheck del: map_eq_conv)
  have dist: "distinct (map baseCode (generatedCodes ss1 @ generatedCodes ss2))"
    unfolding names using n0 by (rule run_distinct)
  then have disj: "set (map baseCode (generatedCodes ss1)) \<inter> set (map baseCode (generatedCodes ss2)) = {}"
    by simp
  have "map (\<lambda>c. parseInt (baseCode c)) (generatedCodes ss1 @ generatedCodes ss2)
      = map parseInt (map baseCode (generatedCodes ss1 @ generatedCodes ss2))"
    by (simp add: comp_def)
  also have "\<dots> = map (\<lambda>i. Fin (n + int i)) [0..<nat (q1 + q2)]"
    unfolding names using n0 by (simp add: comp_def base12_parse)
  finally have vals: "map (\<lambda>c. parseInt (baseCode c)) (generatedCodes ss1 @ generatedCodes ss2)
      = map (\<lambda>i. Fin (n + int i)) [0..<nat (q1 + q2)]" .
  show ?thesis
    using S1 S2 disj names vals dist by blast
qed

theorem consecutive_batches_witness:
  "length ''000000000041'' = 12 \<and> isDigits ''000000000041''
   \<and> parseInt ''000000000041'' = Fin 41 \<and> parseInt ''2'' = Fin 2 \<and> parseInt ''3'' = Fin 3
   \<and> (\<exists>ts1 ss1 ts2 ss2.
      generateEans_saved True \<lparr>quantity = ''2'', generatedCodes = [], user = Some ''u'',
            savedBases = [], selectedBase = Some \<lparr>base_id = ''a'', name = ''n'',
              cnpj_prefix = ''12345'', last_base_code = ''000000000041''\<rparr>,
            database = []\<rparr> = Inr (ts1, ss1)
    \<and> generateEans_saved True (ss1\<lparr>quantity := ''3''\<rparr>) = Inr (ts2, ss2)
    \<and> set (map baseCode (generatedCodes ss1)) \<inter> set (map baseCode (generatedCodes ss2)) = {}
    \<and> map baseCode (generatedCodes ss1 @ generatedCodes ss2)
        = map (\<lambda>i. base12 (41 + int i)) [0..<nat (2 + 3)])"
proof -
  let ?sel = "\<lparr>base_id = ''a'', name = ''n'',
              cnpj_prefix = ''12345'', last_base_code = ''000000000041''\<rparr>"
  let ?ss = "\<lparr>quantity = ''2'', generatedCodes = [], user = Some ''u'',
            savedBases = [], selectedBase = Some ?sel, database = []\<rparr>"
  have h1: "length ''000000000041'' = 12" by simp
  have h2: "isDigits ''000000000041''" by (simp add: isDigits_def isDigit_def)
  have h3: "parseInt ''000000000041'' = Fin 41" by code_simp
  have h4: "parseInt ''2'' = Fin 2" "(1::int) \<le> 2" "(2::int) \<le> 1000" by code_simp simp_all
  have h5: "parseInt ''3'' = Fin 3" "(1::int) \<le> 3" "(3::int) \<le> 1000" by code_simp simp_all
  have h6: "selectedBase ?ss = Some ?sel" "user ?ss = Some ''u''"
    "last_base_code ?sel = ''000000000041''" "quantity ?ss = ''2''"
    by simp_all
  have "\<exists>ts1 ss1 ts2 ss2.
      generateEans_saved True ?ss = Inr (ts1, ss1)
    \<and> generateEans_saved True (ss1\<lparr>quantity := ''3''\<rparr>) = Inr (ts2, ss2)
    \<and> set (map baseCode (generatedCodes ss1)) \<inter> set (map baseCode (generatedCodes ss2)) = {}
    \<and> map baseCode (generatedCodes ss1 @ generatedCodes ss2)
        = map (\<lambda>i. base12 (41 + int i)) [0..<nat (2 + 3)]"
    using consecutive_batches [OF h1 h2 h3 h4 h5 h6, of True] by blast
  with h1 h2 h3 h4(1) h5(1) show ?thesis by (intro conjI)
qed

section \<open>A failed write of the cursor\<close>

text \<open>
  Claim C7. When the write of the cursor fails, the database component still puts the
  batch on screen, leaves the selected base, the saved bases and the table as they were,
  and shows the error toast about the last code not being saved.
\<close>

theorem failed_write_keeps_cursor:
  assumes "selectedBase ss = Some sel" and "user ss = Some u"
    and "parseInt (quantity ss) = Fin q" and "1 \<le> q" and "q \<le> 1000"
  shows "\<exists>ss'.
      generateEans_saved False ss = Inr ([ErrSave, OkGenerated (Fin q)], ss')
    \<and> isError ErrSave
    \<and> generatedCodes ss' = codes_loop (parseInt (last_base_code sel)) (Fin q) 0 []
    \<and> length (generatedCodes ss') = nat q
    \<and> selectedBase ss' = selectedBase ss
    \<and> savedBases ss' = savedBases ss
    \<and> database ss' = database ss"
proof -
  let ?codes = "codes_loop (parseInt (last_base_code sel)) (Fin q) 0 []"
  have r: "generateEans_saved False ss = Inr ([ErrSave, OkGenerated (Fin q)], ss\<lparr>generatedCodes := ?codes\<rparr>)"
    using assms by (rule saved_result_failed)
  have len: "length ?codes = nat q"
    by (simp add: codes_loop_general)
  show ?thesis
    using r len by (intro exI [of _ "ss\<lparr>generatedCodes := ?codes\<rparr>"]) simp
qed

theorem failed_write_keeps_cursor_witness:
  "parseInt ''2'' = Fin 2
   \<and> (\<exists>ss'. generateEans_saved False \<lparr>quantity = ''2'', generatedCodes = [], user = Some ''u'',
            savedBases = [\<lparr>base_id = ''a'', name = ''n'',
              cnpj_prefix = ''12345'', last_base_code = ''000000000041''\<rparr>],
            selectedBase = Some \<lparr>base_id = ''a'', name = ''n'',
              cnpj_prefix = ''12345'', last_base_code = ''000000000041''\<rparr>,
            database = [\<lparr>base_id = ''a'', name = ''n'',
              cnpj_prefix = ''12345'', last_base_code = ''000000000041''\<rparr>]\<rparr>
        = Inr ([ErrSave, OkGenerated (Fin 2)], ss')
      \<and> length (generatedCodes ss') = nat 2
      \<and> selectedBase ss' = Some \<lparr>base_id = ''a'', name = ''n'',
              cnpj_prefix = ''12345'', last_base_code = ''000000000041''\<rparr>
      \<and> database ss' = [\<lparr>base_id = ''a'', name = ''n'',
              cnpj_prefix = ''12345'', last_base_code = ''000000000041''\<rparr>])"
proof -
  let ?sel = "\<lparr>base_id = ''a'', name = ''n'',
              cnpj_prefix = ''12345'', last_base_code = ''000000000041''\<rparr>"
  let ?ss = "\<lparr>quantity = ''2'', generatedCodes = [], user = Some ''u'',
            savedBases = [?sel], selectedBase = Some ?sel, database = [?sel]\<rparr>"
  have h: "parseInt ''2'' = Fin 2" by code_simp
  have h': "selectedBase ?ss = Some ?sel" "user ?ss = Some ''u''"
    "parseInt (quantity ?ss) = Fin 2" "(1::int) \<le> 2" "(2::int) \<le> 1000"
    using h by simp_all
  have "\<exists>ss'. generateEans_saved False ?ss = Inr ([ErrSave, OkGenerated (Fin 2)], ss')
      \<and> length (generatedCodes ss') = nat 2
      \<and> selectedBase ss' = Some ?sel \<and> database ss' = [?sel]"
    using failed_write_keeps_cursor [OF h'] by auto
  with h show ?thesis by (intro conjI)
qed

section \<open>The tail of the prefix + CNPJ component\<close>

lemma cnpj_result:
  assumes "length (cnpjDigits st) = 5"
    and "parseInt (quantity st) = Fin q" and "1 \<le> q" and "q \<le> 1000"
    and "(if lastBaseCode st \<noteq> [] \<and> startsWith (lastBaseCode st) (prefix st @ cnpjDigits st)
          then num_add (parseInt (slice 8 12 (lastBaseCode st))) (Fin 1) else Fin 0) = Fin s"
  shows "generateEans_cnpj st =
     Inr ([OkGenerated (Fin q)],
          st\<lparr>lastBaseCode := prefix st @ cnpjDigits st @ tail4 (s + q - 1),
             localStorage := Some (prefix st @ cnpjDigits st @ tail4 (s + q - 1)),
             generatedCodes :=
               map (\<lambda>i. withCheck (prefix st @ cnpjDigits st @ tail4 (s + int i))) [0..<nat q]\<rparr>)"
proof -
  let ?f = "\<lambda>i. withCheck (prefix st @ cnpjDigits st @ tail4 (s + int i))"
  let ?codes = "map ?f [0..<nat q]"
  have ok: "\<not> bad_quantity (Fin q)"
    using assms(3,4) by (rule good_quantity)
  have loop: "cnpj_loop (prefix st) (cnpjDigits st) (Fin s) (Fin q) 0 [] = ?codes"
    by (simp add: cnpj_loop_map)
  have pos: "0 < nat q" using assms(3) by simp
  then have ne: "?codes \<noteq> []" by simp
  have lst: "baseCode (last ?codes) = prefix st @ cnpjDigits st @ tail4 (s + q - 1)"
  proof -
    have "last ?codes = ?f (nat q - 1)"
      using pos by (rule last_map_upt)
    moreover have "s + int (nat q - 1) = s + q - 1"
      using assms(3) by simp
    ultimately show ?thesis by (simp only: baseCode_withCheck)
  qed
  show ?thesis
    unfolding generateEans_cnpj_def Let_def assms(2,5) loop
    using assms(1) ok ne lst by simp
qed

lemma startsWith_8: "length p = 8 \<Longrightarrow> startsWith s p = (take 8 s = p)"
  by (simp add: startsWith_def)

lemma slice_tail_12: "length s = 12 \<Longrightarrow> slice 8 12 s = drop 8 s"
  by (simp add: slice_def)

text \<open>
  Claim C6, as amended. In the prefix + CNPJ component, with five CNPJ digits, a prefix of
  three characters and a valid quantity: when the first 8 characters of the cursor are the
  prefix followed by the CNPJ digits and the characters 8 to 11 of the cursor read as the
  number \<open>t\<close>, the tails of the next batch are those of \<open>t + 1\<close>, \<open>t + 2\<close>, ...; for a cursor
  of 12 characters these four characters are all of its stored tail, so the batch starts
  at the stored tail plus 1; when there is no cursor, or its first 8 characters differ, the
  tails are those of 0, 1, ..., and the first base code ends in \<open>0000\<close>.
\<close>

theorem cnpj_tail_start:
  assumes "length (cnpjDigits st) = 5" and "length (prefix st) = 3"
    and "parseInt (quantity st) = Fin q" and "1 \<le> q" and "q \<le> 1000"
  shows
    "(take 8 (lastBaseCode st) = prefix st @ cnpjDigits st
        \<and> parseInt (slice 8 12 (lastBaseCode st)) = Fin t
      \<longrightarrow> (\<exists>ts st'. generateEans_cnpj st = Inr (ts, st')
            \<and> map baseCode (generatedCodes st')
                = map (\<lambda>i. prefix st @ cnpjDigits st @ tail4 (t + 1 + int i)) [0..<nat q]))
   \<and> (lastBaseCode st = [] \<or> take 8 (lastBaseCode st) \<noteq> prefix st @ cnpjDigits st
      \<longrightarrow> (\<exists>ts st'. generateEans_cnpj st = Inr (ts, st')
            \<and> map baseCode (generatedCodes st')
                = map (\<lambda>i. prefix st @ cnpjDigits st @ tail4 (int i)) [0..<nat q]
            \<and> baseCode (hd (generatedCodes st')) = prefix st @ cnpjDigits st @ ''0000''))
   \<and> (take 8 (lastBaseCode st) = prefix st @ cnpjDigits st
        \<and> length (lastBaseCode st) = 12
        \<and> parseInt (drop 8 (lastBaseCode st)) = Fin t
      \<longrightarrow> (\<exists>ts st'. generateEans_cnpj st = Inr (ts, st')
            \<and> map baseCode (generatedCodes st')
                = map (\<lambda>i. prefix st @ cnpjDigits st @ tail4 (t + 1 + int i)) [0..<nat q]))"
proof (intro conjI impI)
  have len8: "length (prefix st @ cnpjDigits st) = 8" using assms(1,2) by simp
  have matching: "\<exists>ts st'. generateEans_cnpj st = Inr (ts, st')
            \<and> map baseCode (generatedCodes st')
                = map (\<lambda>i. prefix st @ cnpjDigits st @ tail4 (t + 1 + int i)) [0..<nat q]"
    if a: "take 8 (lastBaseCode st) = prefix st @ cnpjDigits st
        \<and> parseInt (slice 8 12 (lastBaseCode st)) = Fin t"
  proof -
    have "lastBaseCode st \<noteq> []" using a len8 by auto
    moreover have "startsWith (lastBaseCode st) (prefix st @ cnpjDigits st)"
      using a by (simp add: startsWith_8 [OF len8])
    ultimately have start: "(if lastBaseCode st \<noteq> [] \<and> startsWith (lastBaseCode st) (prefix st @ cnpjDigits st)
          then num_add (parseInt (slice 8 12 (lastBaseCode st))) (Fin 1) else Fin 0) = Fin (t + 1)"
      using a by simp
    have "generateEans_cnpj st =
      Inr ([OkGenerated (Fin q)],
          st\<lparr>lastBaseCode := prefix st @ cnpjDigits st @ tail4 (t + 1 + q - 1),
             localStorage := Some (prefix st @ cnpjDigits st @ tail4 (t + 1 + q - 1)),
             generatedCodes :=
               map (\<lambda>i. withCheck (prefix st @ cnpjDigits st @ tail4 (t + 1 + int i))) [0..<nat q]\<rparr>)"
      using assms(1,3,4,5) start by (rule cnpj_result)
    then show ?thesis
      by (simp add: comp_def baseCode_withCheck del: map_eq_conv)
  qed
  {
    assume "take 8 (lastBaseCode st) = prefix st @ cnpjDigits st
        \<and> parseInt (slice 8 12 (lastBaseCode st)) = Fin t"
    then show "\<exists>ts st'. generateEans_cnpj st = Inr (ts, st')
            \<and> map baseCode (generatedCodes st')
                = map (\<lambda>i. prefix st @ cnpjDigits st @ tail4 (t + 1 + int i)) [0..<nat q]"
      by (rule matching)
  }
  {
    assume "take 8 (lastBaseCode st) = prefix st @ cnpjDigits st
        \<and> length (lastBaseCode st) = 12
        \<and> parseInt (drop 8 (lastBaseCode st)) = Fin t"
    then have "take 8 (lastBaseCode st) = prefix st @ cnpjDigits st
        \<and> parseInt (slice 8 12 (lastBaseCode st)) = Fin t"
      by (simp add: slice_tail_12)
    then show "\<exists>ts st'. generateEans_cnpj st = Inr (ts, st')
            \<and> map baseCode (generatedCodes st')
                = map (\<lambda>i. prefix st @ cnpjDigits st @ tail4 (t + 1 + int i)) [0..<nat q]"
      by (rule matching)
  }
  {
    assume a: "lastBaseCode st = [] \<or> take 8 (lastBaseCode st) \<noteq> prefix st @ cnpjDigits st"
    then have start: "(if lastBaseCode st \<noteq> [] \<and> startsWith (lastBaseCode st) (prefix st @ cnpjDigits st)
          then num_add (parseInt (slice 8 12 (lastBaseCode st))) (Fin 1) else Fin 0) = Fin 0"
      by (auto simp: startsWith_8 [OF len8])
    have r: "generateEans_cnpj st =
      Inr ([OkGenerated (Fin q)],
          st\<lparr>lastBaseCode := prefix st @ cnpjDigits st @ tail4 (0 + q - 1),
             localStorage := Some (prefix st @ cnpjDigits st @ tail4 (0 + q - 1)),
             generatedCodes :=
               map (\<lambda>i. withCheck (prefix st @ cnpjDigits st @ tail4 (0 + int i))) [0..<nat q]\<rparr>)"
      using assms(1,3,4,5) start by (rule cnpj_result)
    have z: "tail4 0 = ''0000''" by code_simp
    have "0 < nat q" using assms(4) by simp
    then have "[0..<nat q] = 0 # [1..<nat q]" by (simp add: upt_conv_Cons)
    then have "baseCode (hd (map (\<lambda>i. withCheck (prefix st @ cnpjDigits st @ tail4 (0 + int i))) [0..<nat q]))
        = prefix st @ cnpjDigits st @ ''0000''"
      by (simp add: baseCode_withCheck z)
    then show "\<exists>ts st'. generateEans_cnpj st = Inr (ts, st')
            \<and> map baseCode (generatedCodes st')
                = map (\<lambda>i. prefix st @ cnpjDigits st @ tail4 (int i)) [0..<nat q]
            \<and> baseCode (hd (generatedCodes st')) = prefix st @ cnpjDigits st @ ''0000''"
      using r by (simp add: comp_def baseCode_withCheck del: map_eq_conv)
  }
qed

theorem cnpj_tail_start_witness:
  "parseInt ''2'' = Fin 2 \<and> parseInt (slice 8 12 ''789123450041'') = Fin 41
   \<and> length ''789123450041'' = 12 \<and> parseInt (drop 8 ''789123450041'') = Fin 41
   \<and> (\<exists>ts st'. generateEans_cnpj \<lparr>quantity = ''2'', generatedCodes = [],
           lastBaseCode = ''789123450041'', localStorage = Some ''789123450041'',
           prefix = ''789'', cnpjDigits = ''12345''\<rparr> = Inr (ts, st')
        \<and> map baseCode (generatedCodes st')
            = map (\<lambda>i. ''789'' @ ''12345'' @ tail4 (41 + 1 + int i)) [0..<nat 2])
   \<and> (\<exists>ts st'. generateEans_cnpj \<lparr>quantity = ''2'', generatedCodes = [],
           lastBaseCode = ''789123450041'', localStorage = Some ''789123450041'',
           prefix = ''789'', cnpjDigits = ''54321''\<rparr> = Inr (ts, st')
        \<and> baseCode (hd (generatedCodes st')) = ''789'' @ ''54321'' @ ''0000'')"
proof -
  let ?a = "\<lparr>quantity = ''2'', generatedCodes = [],
           lastBaseCode = ''789123450041'', localStorage = Some ''789123450041'',
           prefix = ''789'', cnpjDigits = ''12345''\<rparr>"
  let ?b = "\<lparr>quantity = ''2'', generatedCodes = [],
           lastBaseCode = ''789123450041'', localStorage = Some ''789123450041'',
           prefix = ''789'', cnpjDigits = ''54321''\<rparr>"
  have q: "parseInt ''2'' = Fin 2" by code_simp
  have t: "parseInt (slice 8 12 ''789123450041'') = Fin 41" by code_simp
  have l: "length ''789123450041'' = 12" by simp
  have d: "parseInt (drop 8 ''789123450041'') = Fin 41" by code_simp
  have ha: "length (cnpjDigits ?a) = 5" "length (prefix ?a) = 3"
    "parseInt (quantity ?a) = Fin 2" "(1::int) \<le> 2" "(2::int) \<le> 1000"
    using q by simp_all
  have hb: "length (cnpjDigits ?b) = 5" "length (prefix ?b) = 3"
    "parseInt (quantity ?b) = Fin 2" "(1::int) \<le> 2" "(2::int) \<le> 1000"
    using q by simp_all
  have ma: "take 8 (lastBaseCode ?a) = prefix ?a @ cnpjDigits ?a
      \<and> parseInt (slice 8 12 (lastBaseCode ?a)) = Fin 41"
    using t by simp
  have mc: "take 8 (lastBaseCode ?a) = prefix ?a @ cnpjDigits ?a
      \<and> length (lastBaseCode ?a) = 12
      \<and> parseInt (drop 8 (lastBaseCode ?a)) = Fin 41"
    using d by simp
  have mb: "lastBaseCode ?b = [] \<or> take 8 (lastBaseCode ?b) \<noteq> prefix ?b @ cnpjDigits ?b"
    by simp
  have "\<exists>ts st'. generateEans_cnpj ?a = Inr (ts, st')
        \<and> map baseCode (generatedCodes st')
            = map (\<lambda>i. prefix ?a @ cnpjDigits ?a @ tail4 (41 + 1 + int i)) [0..<nat 2]"
    using cnpj_tail_start [OF ha, of 41] ma mc by blast
  moreover have "\<exists>ts st'. generateEans_cnpj ?b = Inr (ts, st')
        \<and> baseCode (hd (generatedCodes st')) = prefix ?b @ cnpjDigits ?b @ ''0000''"
    using cnpj_tail_start [OF hb, of 0] mb by blast
  ultimately show ?thesis using q t l d by simp
qed

lemma tail4_10000: "tail4 10000 = ''10000''"
  by (simp add: tail4_def toString_def padStart_def decimal.simps digitChar_def char_of_eq_iff)

lemma tail4_1001: "tail4 1001 = ''1001''"
  by (simp add: tail4_def toString_def padStart_def decimal.simps digitChar_def char_of_eq_iff)

lemma slice_parse_9999: "parseInt (slice 8 12 ''789123459999'') = Fin 9999"
proof -
  have "slice 8 12 ''789123459999'' = ''9999''" by (simp add: slice_def)
  then show ?thesis
    using parseInt_digits [of "''9999''"]
    by (simp add: isDigit_def decval_def digitVal_def)
qed

lemma slice_parse_1000: "parseInt (slice 8 12 ''7891234510000'') = Fin 1000"
proof -
  have "slice 8 12 ''7891234510000'' = ''1000''" by (simp add: slice_def)
  then show ?thesis
    using parseInt_digits [of "''1000''"]
    by (simp add: isDigit_def decval_def digitVal_def)
qed

lemma withCheck_overflowed: "withCheck ''7891234510000'' = \<lparr>code = ''78912345100006'', baseCode = ''7891234510000''\<rparr>"
  by code_simp

lemma withCheck_reissued: "withCheck ''789123451001'' = \<lparr>code = ''7891234510013'', baseCode = ''789123451001''\<rparr>"
  by code_simp

text \<open>
  Claim C6 as stated fails for a cursor longer than 12 characters, which the component
  itself stores when the tail passes 9999: one code from the cursor \<open>789123459999\<close> stores
  the cursor \<open>7891234510000\<close>, whose stored tail is 10000; the next call reads only the
  characters 8 to 11, \<open>1000\<close>, and starts at the tail \<open>1001\<close>, not at 10001.
\<close>

theorem cnpj_tail_overflow_counterexample:
  "generateEans_cnpj \<lparr>quantity = ''1'', generatedCodes = [],
       lastBaseCode = ''789123459999'', localStorage = Some ''789123459999'',
       prefix = ''789'', cnpjDigits = ''12345''\<rparr>
     = Inr ([OkGenerated (Fin 1)],
            \<lparr>quantity = ''1'',
             generatedCodes = [\<lparr>code = ''78912345100006'', baseCode = ''7891234510000''\<rparr>],
             lastBaseCode = ''7891234510000'', localStorage = Some ''7891234510000'',
             prefix = ''789'', cnpjDigits = ''12345''\<rparr>)
   \<and> take 8 ''7891234510000'' = ''789'' @ ''12345''
   \<and> drop 8 ''7891234510000'' = ''10000''
   \<and> generateEans_cnpj \<lparr>quantity = ''1'', generatedCodes = [],
       lastBaseCode = ''7891234510000'', localStorage = Some ''7891234510000'',
       prefix = ''789'', cnpjDigits = ''12345''\<rparr>
     = Inr ([OkGenerated (Fin 1)],
            \<lparr>quantity = ''1'',
             generatedCodes = [\<lparr>code = ''7891234510013'', baseCode = ''789123451001''\<rparr>],
             lastBaseCode = ''789123451001'', localStorage = Some ''789123451001'',
             prefix = ''789'', cnpjDigits = ''12345''\<rparr>)"
proof -
  let ?a = "\<lparr>quantity = ''1'', generatedCodes = [],
       lastBaseCode = ''789123459999'', localStorage = Some ''789123459999'',
       prefix = ''789'', cnpjDigits = ''12345''\<rparr>"
  let ?b = "\<lparr>quantity = ''1'', generatedCodes = [],
       lastBaseCode = ''7891234510000'', localStorage = Some ''7891234510000'',
       prefix = ''789'', cnpjDigits = ''12345''\<rparr>"
  have q: "parseInt ''1'' = Fin 1" by code_simp
  have sa: "(if lastBaseCode ?a \<noteq> [] \<and> startsWith (lastBaseCode ?a) (prefix ?a @ cnpjDigits ?a)
          then num_add (parseInt (slice 8 12 (lastBaseCode ?a))) (Fin 1) else Fin 0) = Fin 10000"
    by (simp add: startsWith_def slice_parse_9999)
  have sb: "(if lastBaseCode ?b \<noteq> [] \<and> startsWith (lastBaseCode ?b) (prefix ?b @ cnpjDigits ?b)
          then num_add (parseInt (slice 8 12 (lastBaseCode ?b))) (Fin 1) else Fin 0) = Fin 1001"
    by (simp add: startsWith_def slice_parse_1000)
  have ha: "length (cnpjDigits ?a) = 5" "parseInt (quantity ?a) = Fin 1"
    "(1::int) \<le> 1" "(1::int) \<le> 1000"
    using q by simp_all
  have hb: "length (cnpjDigits ?b) = 5" "parseInt (quantity ?b) = Fin 1"
    "(1::int) \<le> 1" "(1::int) \<le> 1000"
    using q by simp_all
  have ra: "generateEans_cnpj ?a = Inr ([OkGenerated (Fin 1)],
            \<lparr>quantity = ''1'',
             generatedCodes = [\<lparr>code = ''78912345100006'', baseCode = ''7891234510000''\<rparr>],
             lastBaseCode = ''7891234510000'', localStorage = Some ''7891234510000'',
             prefix = ''789'', cnpjDigits = ''12345''\<rparr>)"
    using cnpj_result [OF ha sa] withCheck_overflowed by (simp add: tail4_10000)
  have rb: "generateEans_cnpj ?b = Inr ([OkGenerated (Fin 1)],
            \<lparr>quantity = ''1'',
             generatedCodes = [\<lparr>code = ''7891234510013'', baseCode = ''789123451001''\<rparr>],
             lastBaseCode = ''789123451001'', localStorage = Some ''789123451001'',
             prefix = ''789'', cnpjDigits = ''12345''\<rparr>)"
    using cnpj_result [OF hb sb] withCheck_reissued by (simp add: tail4_1001)
  have "take 8 ''7891234510000'' = ''789'' @ ''12345''" "drop 8 ''7891234510000'' = ''10000''"
    by simp_all
  with ra rb show ?thesis by (intro conjI)
qed

section \<open>Overflow of the fixed width\<close>

lemma toString_not_Nil: "toString x \<noteq> []"
  by (cases x) (simp_all add: toString_def decimal_not_Nil)

lemma check_digit_not_Nil: "calculateEanCheckDigit s \<noteq> []"
  by (simp add: calculateEanCheckDigit_def Let_def toString_not_Nil)

lemma code_longer: "length (baseCode (withCheck b)) < length (code (withCheck b))"
  using check_digit_not_Nil [of b] by (simp add: withCheck_def)

lemma tail4_parse: "0 \<le> k \<Longrightarrow> parseInt (tail4 k) = Fin k"
  by (simp add: tail4_def toString_nonneg padded_parse)

lemma overflow_free:
  assumes "length b = 12" and "isDigits b" and "parseInt b = Fin n"
    and "baseCode_input fs = b" and "parseInt (quantity fs) = Fin q"
    and "1 \<le> q" and "q \<le> 1000" and "999999999999 < n + q - 1"
  shows "\<exists>fs'.
      generateEans_free fs = Inr ([OkGenerated (Fin q)], fs')
    \<and> length (generatedCodes fs') = nat q
    \<and> (\<forall>i<nat q. baseCode (generatedCodes fs' ! i) = base12 (n + int i)
          \<and> parseInt (base12 (n + int i)) = Fin (n + int i)
          \<and> (999999999999 < n + int i \<longrightarrow>
                12 < length (baseCode (generatedCodes fs' ! i))
              \<and> 13 < length (code (generatedCodes fs' ! i))))
    \<and> localStorage fs' = Some (baseCode (last (generatedCodes fs')))
    \<and> lastBaseCode fs' = baseCode (last (generatedCodes fs'))
    \<and> 12 < length (baseCode (last (generatedCodes fs')))"
proof -
  let ?f = "\<lambda>i. withCheck (base12 (n + int i))"
  have ne: "b \<noteq> []" using assms(1) by auto
  have n0: "0 \<le> n" using ne assms(2,3) by (rule digits_parse_nonneg)
  define fs' where "fs' = fs\<lparr>lastBaseCode := base12 (n + q - 1),
             localStorage := Some (base12 (n + q - 1)),
             generatedCodes := map ?f [0..<nat q]\<rparr>"
  have F: "generateEans_free fs = Inr ([OkGenerated (Fin q)], fs')"
    unfolding fs'_def using assms(1-7) by (intro free_result) simp_all
  have gf: "generatedCodes fs' = map ?f [0..<nat q]" by (simp add: fs'_def)
  have lf: "baseCode (last (generatedCodes fs')) = base12 (n + q - 1)"
    unfolding gf using assms(6) by (rule batch_last)
  have F1: "length (generatedCodes fs') = nat q" by (simp add: gf)
  have F2: "\<forall>i<nat q. baseCode (generatedCodes fs' ! i) = base12 (n + int i)
          \<and> parseInt (base12 (n + int i)) = Fin (n + int i)
          \<and> (999999999999 < n + int i \<longrightarrow>
                12 < length (baseCode (generatedCodes fs' ! i))
              \<and> 13 < length (code (generatedCodes fs' ! i)))"
  proof (intro allI impI conjI)
    fix i assume i: "i < nat q"
    show b: "baseCode (generatedCodes fs' ! i) = base12 (n + int i)"
      using i by (simp add: gf baseCode_withCheck)
    show "parseInt (base12 (n + int i)) = Fin (n + int i)"
      using n0 by (intro base12_parse) simp
    assume over: "999999999999 < n + int i"
    then show l: "12 < length (baseCode (generatedCodes fs' ! i))"
      unfolding b by (rule base12_long)
    have "length (baseCode (?f i)) < length (code (?f i))" by (rule code_longer)
    then show "13 < length (code (generatedCodes fs' ! i))"
      using l i by (simp add: gf)
  qed
  have F3: "localStorage fs' = Some (baseCode (last (generatedCodes fs')))"
    "lastBaseCode fs' = baseCode (last (generatedCodes fs'))"
    unfolding lf by (simp_all add: fs'_def)
  have F4: "12 < length (baseCode (last (generatedCodes fs')))"
    unfolding lf using assms(8) by (rule base12_long)
  show ?thesis
    using F F1 F2 F3 F4 by blast
qed

lemma overflow_cnpj:
  assumes "length (cnpjDigits st) = 5" and "length (prefix st) = 3"
    and "parseInt (quantity st) = Fin r" and "1 \<le> r" and "r \<le> 1000"
    and "take 8 (lastBaseCode st) = prefix st @ cnpjDigits st"
    and "parseInt (slice 8 12 (lastBaseCode st)) = Fin t" and "0 \<le> t"
    and "9999 < t + 1 + r - 1"
  shows "\<exists>st'.
      generateEans_cnpj st = Inr ([OkGenerated (Fin r)], st')
    \<and> length (generatedCodes st') = nat r
    \<and> (\<forall>i<nat r. baseCode (generatedCodes st' ! i)
              = prefix st @ cnpjDigits st @ tail4 (t + 1 + int i)
          \<and> parseInt (tail4 (t + 1 + int i)) = Fin (t + 1 + int i)
          \<and> (9999 < t + 1 + int i \<longrightarrow>
                4 < length (tail4 (t + 1 + int i))
              \<and> 12 < length (baseCode (generatedCodes st' ! i))
              \<and> 13 < length (code (generatedCodes st' ! i))))
    \<and> localStorage st' = Some (baseCode (last (generatedCodes st')))
    \<and> lastBaseCode st' = baseCode (last (generatedCodes st'))
    \<and> 12 < length (baseCode (last (generatedCodes st')))"
proof -
  let ?g = "\<lambda>i. withCheck (prefix st @ cnpjDigits st @ tail4 (t + 1 + int i))"
  have len8: "length (prefix st @ cnpjDigits st) = 8" using assms(1,2) by simp
  have "lastBaseCode st \<noteq> []" using len8 assms(6) by auto
  moreover have "startsWith (lastBaseCode st) (prefix st @ cnpjDigits st)"
    using assms(6) by (simp add: startsWith_8 [OF len8])
  ultimately have start: "(if lastBaseCode st \<noteq> [] \<and> startsWith (lastBaseCode st) (prefix st @ cnpjDigits st)
          then num_add (parseInt (slice 8 12 (lastBaseCode st))) (Fin 1) else Fin 0) = Fin (t + 1)"
    using assms(7) by simp
  define st' where "st' = st\<lparr>lastBaseCode := prefix st @ cnpjDigits st @ tail4 (t + 1 + r - 1),
             localStorage := Some (prefix st @ cnpjDigits st @ tail4 (t + 1 + r - 1)),
             generatedCodes := map ?g [0..<nat r]\<rparr>"
  have S: "generateEans_cnpj st = Inr ([OkGenerated (Fin r)], st')"
    unfolding st'_def using assms(1,3,4,5) start by (rule cnpj_result)
  have gs: "generatedCodes st' = map ?g [0..<nat r]" by (simp add: st'_def)
  have ls: "baseCode (last (generatedCodes st')) = prefix st @ cnpjDigits st @ tail4 (t + 1 + r - 1)"
  proof -
    have "0 < nat r" using assms(4) by simp
    then have "last (map ?g [0..<nat r]) = ?g (nat r - 1)" by (rule last_map_upt)
    moreover have "t + 1 + int (nat r - 1) = t + 1 + r - 1" using assms(4) by simp
    ultimately show ?thesis unfolding gs by (simp only: baseCode_withCheck)
  qed
  have S1: "length (generatedCodes st') = nat r" by (simp add: gs)
  have S2: "\<forall>i<nat r. baseCode (generatedCodes st' ! i)
              = prefix st @ cnpjDigits st @ tail4 (t + 1 + int i)
          \<and> parseInt (tail4 (t + 1 + int i)) = Fin (t + 1 + int i)
          \<and> (9999 < t + 1 + int i \<longrightarrow>
                4 < length (tail4 (t + 1 + int i))
              \<and> 12 < length (baseCode (generatedCodes st' ! i))
              \<and> 13 < length (code (generatedCodes st' ! i)))"
  proof (intro allI impI conjI)
    fix i assume i: "i < nat r"
    show b: "baseCode (generatedCodes st' ! i) = prefix st @ cnpjDigits st @ tail4 (t + 1 + int i)"
      using i by (simp add: gs baseCode_withCheck)
    show "parseInt (tail4 (t + 1 + int i)) = Fin (t + 1 + int i)"
      using assms(8) by (intro tail4_parse) simp
    assume over: "9999 < t + 1 + int i"
    then show l4: "4 < length (tail4 (t + 1 + int i))" by (rule tail4_long)
    then show l: "12 < length (baseCode (generatedCodes st' ! i))"
      unfolding b using assms(1,2) by simp
    have "length (baseCode (?g i)) < length (code (?g i))" by (rule code_longer)
    then show "13 < length (code (generatedCodes st' ! i))"
      using l i by (simp add: gs)
  qed
  have S3: "localStorage st' = Some (baseCode (last (generatedCodes st')))"
    "lastBaseCode st' = baseCode (last (generatedCodes st'))"
    unfolding ls by (simp_all add: st'_def)
  have "4 < length (tail4 (t + 1 + r - 1))"
    using assms(9) by (rule tail4_long)
  then have S4: "12 < length (baseCode (last (generatedCodes st')))"
    unfolding ls using assms(1,2) by simp
  show ?thesis
    using S S1 S2 S3 S4 by blast
qed

text \<open>
  Claim C10. When the last number of a batch exceeds 999999999999 in the free-form
  component, or the last tail exceeds 9999 in the prefix + CNPJ component, the call still
  succeeds with the success toast alone and generates every code of the batch; each base
  code or tail reads back as its number (nothing wraps, nothing is cut); those whose
  number exceeds the width are longer than 12 characters (the tail longer than 4) and
  their full codes longer than 13; and the last base code, longer than 12 characters, is
  stored as the cursor.
\<close>

theorem overflow_is_silent:
  "(length b = 12 \<and> isDigits b \<and> parseInt b = Fin n
      \<and> baseCode_input fs = b \<and> parseInt (quantity fs) = Fin q
      \<and> 1 \<le> q \<and> q \<le> 1000 \<and> 999999999999 < n + q - 1
    \<longrightarrow> (\<exists>fs'.
          generateEans_free fs = Inr ([OkGenerated (Fin q)], fs')
        \<and> length (generatedCodes fs') = nat q
        \<and> (\<forall>i<nat q. baseCode (generatedCodes fs' ! i) = base12 (n + int i)
              \<and> parseInt (base12 (n + int i)) = Fin (n + int i)
              \<and> (999999999999 < n + int i \<longrightarrow>
                    12 < length (baseCode (generatedCodes fs' ! i))
                  \<and> 13 < length (code (generatedCodes fs' ! i))))
        \<and> localStorage fs' = Some (baseCode (last (generatedCodes fs')))
        \<and> lastBaseCode fs' = baseCode (last (generatedCodes fs'))
        \<and> 12 < length (baseCode (last (generatedCodes fs')))))
   \<and> (length (cnpjDigits st) = 5 \<and> length (prefix st) = 3
      \<and> parseInt (quantity st) = Fin r \<and> 1 \<le> r \<and> r \<le> 1000
      \<and> take 8 (lastBaseCode st) = prefix st @ cnpjDigits st
      \<and> parseInt (slice 8 12 (lastBaseCode st)) = Fin t \<and> 0 \<le> t
      \<and> 9999 < t + 1 + r - 1
    \<longrightarrow> (\<exists>st'.
          generateEans_cnpj st = Inr ([OkGenerated (Fin r)], st')
        \<and> length (generatedCodes st') = nat r
        \<and> (\<forall>i<nat r. baseCode (generatedCodes st' ! i)
                  = prefix st @ cnpjDigits st @ tail4 (t + 1 + int i)
              \<and> parseInt (tail4 (t + 1 + int i)) = Fin (t + 1 + int i)
              \<and> (9999 < t + 1 + int i \<longrightarrow>
                    4 < length (tail4 (t + 1 + int i))
                  \<and> 12 < length (baseCode (generatedCodes st' ! i))
                  \<and> 13 < length (code (generatedCodes st' ! i))))
        \<and> localStorage st' = Some (baseCode (last (generatedCodes st')))
        \<and> lastBaseCode st' = baseCode (last (generatedCodes st'))
        \<and> 12 < length (baseCode (last (generatedCodes st')))))"
proof (intro conjI impI)
  assume "length b = 12 \<and> isDigits b \<and> parseInt b = Fin n
      \<and> baseCode_input fs = b \<and> parseInt (quantity fs) = Fin q
      \<and> 1 \<le> q \<and> q \<le> 1000 \<and> 999999999999 < n + q - 1"
  then show "\<exists>fs'.
          generateEans_free fs = Inr ([OkGenerated (Fin q)], fs')
        \<and> length (generatedCodes fs') = nat q
        \<and> (\<forall>i<nat q. baseCode (generatedCodes fs' ! i) = base12 (n + int i)
              \<and> parseInt (base12 (n + int i)) = Fin (n + int i)
              \<and> (999999999999 < n + int i \<longrightarrow>
                    12 < length (baseCode (generatedCodes fs' ! i))
                  \<and> 13 < length (code (generatedCodes fs' ! i))))
        \<and> localStorage fs' = Some (baseCode (last (generatedCodes fs')))
        \<and> lastBaseCode fs' = baseCode (last (generatedCodes fs'))
        \<and> 12 < length (baseCode (last (generatedCodes fs')))"
    by (elim conjE) (rule overflow_free)
next
  assume "length (cnpjDigits st) = 5 \<and> length (prefix st) = 3
      \<and> parseInt (quantity st) = Fin r \<and> 1 \<le> r \<and> r \<le> 1000
      \<and> take 8 (lastBaseCode st) = prefix st @ cnpjDigits st
      \<and> parseInt (slice 8 12 (lastBaseCode st)) = Fin t \<and> 0 \<le> t
      \<and> 9999 < t + 1 + r - 1"
  then show "\<exists>st'.
          generateEans_cnpj st = Inr ([OkGenerated (Fin r)], st')
        \<and> length (generatedCodes st') = nat r
        \<and> (\<forall>i<nat r. baseCode (generatedCodes st' ! i)
                  = prefix st @ cnpjDigits st @ tail4 (t + 1 + int i)
              \<and> parseInt (tail4 (t + 1 + int i)) = Fin (t + 1 + int i)
              \<and> (9999 < t + 1 + int i \<longrightarrow>
                    4 < length (tail4 (t + 1 + int i))
                  \<and> 12 < length (baseCode (generatedCodes st' ! i))
                  \<and> 13 < length (code (generatedCodes st' ! i))))
        \<and> localStorage st' = Some (baseCode (last (generatedCodes st')))
        \<and> lastBaseCode st' = baseCode (last (generatedCodes st'))
        \<and> 12 < length (baseCode (last (generatedCodes st')))"
    by (elim conjE) (rule overflow_cnpj)
qed

theorem overflow_is_silent_witness:
  "length ''999999999999'' = 12 \<and> isDigits ''999999999999''
   \<and> parseInt ''999999999999'' = Fin 999999999999 \<and> parseInt ''2'' = Fin 2
   \<and> parseInt (slice 8 12 ''789123459999'') = Fin 9999
   \<and> (\<exists>fs'.
        generateEans_free \<lparr>quantity = ''2'', generatedCodes = [], lastBaseCode = [],
            localStorage = None, baseCode_input = ''999999999999''\<rparr>
          = Inr ([OkGenerated (Fin 2)], fs')
      \<and> localStorage fs' = Some (baseCode (last (generatedCodes fs')))
      \<and> 12 < length (baseCode (last (generatedCodes fs'))))
   \<and> (\<exists>st'.
        generateEans_cnpj \<lparr>quantity = ''2'', generatedCodes = [],
           lastBaseCode = ''789123459999'', localStorage = Some ''789123459999'',
           prefix = ''789'', cnpjDigits = ''12345''\<rparr>
          = Inr ([OkGenerated (Fin 2)], st')
      \<and> localStorage st' = Some (baseCode (last (generatedCodes st')))
      \<and> 12 < length (baseCode (last (generatedCodes st'))))"
proof -
  let ?fs = "\<lparr>quantity = ''2'', generatedCodes = [], lastBaseCode = [],
            localStorage = None, baseCode_input = ''999999999999''\<rparr>"
  let ?st = "\<lparr>quantity = ''2'', generatedCodes = [],
           lastBaseCode = ''789123459999'', localStorage = Some ''789123459999'',
           prefix = ''789'', cnpjDigits = ''12345''\<rparr>"
  have h1: "length ''999999999999'' = 12" by simp
  have h2: "isDigits ''999999999999''" by (simp add: isDigits_def isDigit_def)
  have h3: "parseInt ''999999999999'' = Fin 999999999999"
    using parseInt_digits [of "''999999999999''"]
    by (simp add: isDigit_def decval_def digitVal_def)
  have q: "parseInt ''2'' = Fin 2" by code_simp
  have "slice 8 12 ''789123459999'' = ''9999''" by (simp add: slice_def)
  then have t: "parseInt (slice 8 12 ''789123459999'') = Fin 9999"
    using parseInt_digits [of "''9999''"]
    by (simp add: isDigit_def decval_def digitVal_def)
  have hf: "length ''999999999999'' = 12 \<and> isDigits ''999999999999''
      \<and> parseInt ''999999999999'' = Fin 999999999999
      \<and> baseCode_input ?fs = ''999999999999'' \<and> parseInt (quantity ?fs) = Fin 2
      \<and> (1::int) \<le> 2 \<and> (2::int) \<le> 1000 \<and> (999999999999::int) < 999999999999 + 2 - 1"
    using h1 h2 h3 q by simp
  have hs: "length (cnpjDigits ?st) = 5 \<and> length (prefix ?st) = 3
      \<and> parseInt (quantity ?st) = Fin 2 \<and> (1::int) \<le> 2 \<and> (2::int) \<le> 1000
      \<and> take 8 (lastBaseCode ?st) = prefix ?st @ cnpjDigits ?st
      \<and> parseInt (slice 8 12 (lastBaseCode ?st)) = Fin 9999 \<and> (0::int) \<le> 9999
      \<and> (9999::int) < 9999 + 1 + 2 - 1"
    using q t by simp
  note inst = overflow_is_silent [of "''999999999999''" 999999999999 ?fs 2 ?st 2 9999]
  have "\<exists>fs'. generateEans_free ?fs = Inr ([OkGenerated (Fin 2)], fs')
      \<and> localStorage fs' = Some (baseCode (last (generatedCodes fs')))
      \<and> 12 < length (baseCode (last (generatedCodes fs')))"
    using inst hf by blast
  moreover have "\<exists>st'. generateEans_cnpj ?st = Inr ([OkGenerated (Fin 2)], st')
      \<and> localStorage st' = Some (baseCode (last (generatedCodes st')))
      \<and> 12 < length (baseCode (last (generatedCodes st')))"
    using inst hs by blast
  ultimately show ?thesis using h1 h2 h3 q t by (intro conjI)
qed

end
